theory Spec2Isabelle
  imports Complex_Main
begin

section \<open>Errors and tensor handles\<close>

text \<open>
  The exceptions the Python code of \<^verbatim>\<open>tfprocess.py\<close> can raise on the paths
  modelled here. \<open>ValueError\<close> is what TensorFlow raises when it rejects a shape or a
  value list; the other three are raised by the Python interpreter itself.
\<close>

datatype error = ZeroDivisionError | ValueError | IndexError | KeyError

text \<open>
  A graph tensor as the exporter and the importer see it: its graph name
  (\<^verbatim>\<open>weights.name\<close>) and its static shape (\<^verbatim>\<open>weights.shape\<close>).
\<close>

record tensor =
  name :: string
  shape :: "nat list"

section \<open>Topology construction\<close>

text \<open>
  The part of a \<^verbatim>\<open>TFProcess\<close> object that \<^verbatim>\<open>construct_net\<close> reads and
  writes: the two configuration values, the export list \<^verbatim>\<open>self.weights\<close> and the
  counter behind \<^verbatim>\<open>get_batchnorm_key\<close>.
\<close>

record tfprocess =
  RESIDUAL_FILTERS :: int
  RESIDUAL_BLOCKS :: int
  weights :: "tensor list"
  batch_norm_count :: nat

text \<open>Python's \<^verbatim>\<open>str\<close> on a non-negative integer: its decimal digits.\<close>

definition digit :: "nat \<Rightarrow> char" where
  "digit d = char_of (48 + d)"

fun str :: "nat \<Rightarrow> string" where
  "str n = (if n < 10 then [digit n] else str (n div 10) @ [digit (n mod 10)])"

declare str.simps [simp del]

text \<open>
  \<^verbatim>\<open>tf.Variable(initial, name=name)\<close>: TensorFlow refuses a shape with a negative
  dimension and otherwise creates the variable, whose tensor name is the given name
  followed by \<^verbatim>\<open>:0\<close>. Dimensions of a created tensor are natural numbers.
\<close>

definition tf_Variable :: "int list \<Rightarrow> string \<Rightarrow> error + tensor" where
  "tf_Variable sh nm =
     (if list_ex (\<lambda>d. d < 0) sh then Inl ValueError
      else Inr \<lparr>name = nm @ '':0'', shape = map nat sh\<rparr>)"

text \<open>
  \<^verbatim>\<open>weight_variable\<close> computes \<^verbatim>\<open>np.sqrt(2.0 / (sum(shape)))\<close> before it
  creates the variable: Python raises \<open>ZeroDivisionError\<close> when the dimensions sum to
  zero. \<^verbatim>\<open>bias_variable\<close> has no such division.
\<close>

definition weight_variable :: "int list \<Rightarrow> string \<Rightarrow> error + tensor" where
  "weight_variable sh nm =
     (if sum_list sh = 0 then Inl ZeroDivisionError else tf_Variable sh nm)"

definition bias_variable :: "int list \<Rightarrow> string \<Rightarrow> error + tensor" where
  "bias_variable sh nm = tf_Variable sh nm"

definition get_batchnorm_key :: "tfprocess \<Rightarrow> string \<times> tfprocess" where
  "get_batchnorm_key p =
     (''bn'' @ str (batch_norm_count p), p\<lparr>batch_norm_count := batch_norm_count p + 1\<rparr>)"

text \<open>
  An activation tensor (\<^verbatim>\<open>x_planes\<close>, \<^verbatim>\<open>flow\<close>, \<^verbatim>\<open>h_conv\<close>) is in NCHW layout
  and is represented by its number of channels: nothing else about it decides whether
  the graph can be built.

  \<^verbatim>\<open>conv2d(x, W)\<close>: TensorFlow refuses a kernel whose input depth is zero or differs
  from the number of channels of \<open>x\<close>; the result has as many channels as the kernel has
  outputs.
\<close>

definition conv2d :: "nat \<Rightarrow> tensor \<Rightarrow> error + nat" where
  "conv2d x W =
     (if shape W ! 2 = 0 \<or> shape W ! 2 \<noteq> x then Inl ValueError else Inr (shape W ! 3))"

text \<open>
  \<^verbatim>\<open>tf.layers.batch_normalization(x, axis=1, center=True, scale=False)\<close> under the
  variable scope \<open>key\<close> creates the three per-channel variables beta, moving mean and
  moving variance (no gamma); \<^verbatim>\<open>get_tensor_by_name\<close> then fetches them by the
  names built from the same key.
\<close>

definition batch_normalization :: "string \<Rightarrow> nat \<Rightarrow> error + tensor \<times> tensor \<times> tensor" where
  "batch_normalization key x =
     (case tf_Variable [int x] (key @ ''/batch_normalization/beta'') of
        Inl e \<Rightarrow> Inl e
      | Inr beta \<Rightarrow>
     (case tf_Variable [int x] (key @ ''/batch_normalization/moving_mean'') of
        Inl e \<Rightarrow> Inl e
      | Inr mean \<Rightarrow>
     (case tf_Variable [int x] (key @ ''/batch_normalization/moving_variance'') of
        Inl e \<Rightarrow> Inl e
      | Inr var \<Rightarrow> Inr (beta, mean, var))))"

text \<open>
  \<^verbatim>\<open>tf.add(h_bn2, orig)\<close> of the residual connection broadcasts: the channel counts
  must be equal unless one of them is 1.
\<close>

definition tf_add :: "nat \<Rightarrow> nat \<Rightarrow> error + nat" where
  "tf_add x y = (if x = y \<or> y = 1 then Inr x else if x = 1 then Inr y else Inl ValueError)"

text \<open>
  \<^verbatim>\<open>conv_block\<close> returns the activation \<^verbatim>\<open>h_conv\<close>; the model returns it next to
  the updated object.
\<close>

definition conv_block ::
  "tfprocess \<Rightarrow> nat \<Rightarrow> int \<Rightarrow> int \<Rightarrow> int \<Rightarrow> error + nat \<times> tfprocess" where
  "conv_block p inputs filter_size input_channels output_channels =
     (let (weight_key, p1) = get_batchnorm_key p in
      case weight_variable [filter_size, filter_size, input_channels, output_channels]
             (weight_key @ ''/conv_weight'') of
        Inl e \<Rightarrow> Inl e
      | Inr W_conv \<Rightarrow>
     (case conv2d inputs W_conv of
        Inl e \<Rightarrow> Inl e
      | Inr h \<Rightarrow>
     (case batch_normalization weight_key h of
        Inl e \<Rightarrow> Inl e
      | Inr (beta, mean, var) \<Rightarrow>
          Inr (h, p1\<lparr>weights := weights p1 @ [W_conv, beta, mean, var]\<rparr>))))"

definition residual_block :: "tfprocess \<Rightarrow> nat \<Rightarrow> int \<Rightarrow> error + nat \<times> tfprocess" where
  "residual_block p inputs channels =
     (let (weight_key_1, p1) = get_batchnorm_key p in
      case weight_variable [3, 3, channels, channels] (weight_key_1 @ ''/conv_weight'') of
        Inl e \<Rightarrow> Inl e
      | Inr W_conv_1 \<Rightarrow>
     (let (weight_key_2, p2) = get_batchnorm_key p1 in
      case weight_variable [3, 3, channels, channels] (weight_key_2 @ ''/conv_weight'') of
        Inl e \<Rightarrow> Inl e
      | Inr W_conv_2 \<Rightarrow>
     (case conv2d inputs W_conv_1 of
        Inl e \<Rightarrow> Inl e
      | Inr h_1 \<Rightarrow>
     (case batch_normalization weight_key_1 h_1 of
        Inl e \<Rightarrow> Inl e
      | Inr (beta_1, mean_1, var_1) \<Rightarrow>
     (case conv2d h_1 W_conv_2 of
        Inl e \<Rightarrow> Inl e
      | Inr h_2 \<Rightarrow>
     (case batch_normalization weight_key_2 h_2 of
        Inl e \<Rightarrow> Inl e
      | Inr (beta_2, mean_2, var_2) \<Rightarrow>
     (case tf_add h_2 inputs of
        Inl e \<Rightarrow> Inl e
      | Inr h_out_2 \<Rightarrow>
          Inr (h_out_2, p2\<lparr>weights := weights p2 @
                 [W_conv_1, beta_1, mean_1, var_1, W_conv_2, beta_2, mean_2, var_2]\<rparr>))))))))"

text \<open>
  The residual tower, \<^verbatim>\<open>for _ in range(0, self.RESIDUAL_BLOCKS)\<close>: the first
  argument is the number of iterations left, \<open>flow\<close> the activation handed from block to
  block.
\<close>

fun residual_tower :: "nat \<Rightarrow> tfprocess \<Rightarrow> nat \<Rightarrow> error + nat \<times> tfprocess" where
  "residual_tower 0 p flow = Inr (flow, p)"
| "residual_tower (Suc k) p flow =
     (case residual_block p flow (RESIDUAL_FILTERS p) of
        Inl e \<Rightarrow> Inl e
      | Inr (flow', p') \<Rightarrow> residual_tower k p' flow')"

text \<open>
  \<^verbatim>\<open>range(0, n)\<close> is empty for \<open>n \<le> 0\<close>, so the loop runs \<open>nat n\<close> times. The input
  planes are reshaped to 112 channels. In the heads the activations have fixed shapes
  (\<^verbatim>\<open>[-1, 32*8*8]\<close> against kernels of 2048 rows), so the reshapes and products
  cannot fail and are left out.
\<close>

definition construct_net :: "tfprocess \<Rightarrow> error + tfprocess" where
  "construct_net p =
     (case conv_block p 112 3 112 (RESIDUAL_FILTERS p) of
        Inl e \<Rightarrow> Inl e
      | Inr (flow1, p1) \<Rightarrow>
     (case residual_tower (nat (RESIDUAL_BLOCKS p1)) p1 flow1 of
        Inl e \<Rightarrow> Inl e
      | Inr (flow, p2) \<Rightarrow>
     (case conv_block p2 flow 1 (RESIDUAL_FILTERS p2) 32 of
        Inl e \<Rightarrow> Inl e
      | Inr (conv_pol, p3) \<Rightarrow>
     (case weight_variable [32 * 8 * 8, 1858] ''fc1/weight'' of
        Inl e \<Rightarrow> Inl e
      | Inr W_fc1 \<Rightarrow>
     (case bias_variable [1858] ''fc1/bias'' of
        Inl e \<Rightarrow> Inl e
      | Inr b_fc1 \<Rightarrow>
     (case conv_block (p3\<lparr>weights := weights p3 @ [W_fc1, b_fc1]\<rparr>)
             flow 1 (RESIDUAL_FILTERS p3) 32 of
        Inl e \<Rightarrow> Inl e
      | Inr (conv_val, p4) \<Rightarrow>
     (case weight_variable [32 * 8 * 8, 128] ''fc2/weight'' of
        Inl e \<Rightarrow> Inl e
      | Inr W_fc2 \<Rightarrow>
     (case bias_variable [128] ''fc2/bias'' of
        Inl e \<Rightarrow> Inl e
      | Inr b_fc2 \<Rightarrow>
     (case weight_variable [128, 1] ''fc3/weight'' of
        Inl e \<Rightarrow> Inl e
      | Inr W_fc3 \<Rightarrow>
     (case bias_variable [1] ''fc3/bias'' of
        Inl e \<Rightarrow> Inl e
      | Inr b_fc3 \<Rightarrow>
          Inr (p4\<lparr>weights := weights p4 @ [W_fc2, b_fc2, W_fc3, b_fc3]\<rparr>)))))))))))"

text \<open>
  \<^verbatim>\<open>__init__\<close> stores the two configuration values and the empty export list;
  \<^verbatim>\<open>init_net\<close> resets the key counter and builds the network.
\<close>

definition TFProcess :: "int \<Rightarrow> int \<Rightarrow> tfprocess" where
  "TFProcess filters residual_blocks =
     \<lparr>RESIDUAL_FILTERS = filters, RESIDUAL_BLOCKS = residual_blocks,
      weights = [], batch_norm_count = 0\<rparr>"

definition init_net :: "tfprocess \<Rightarrow> error + tfprocess" where
  "init_net p = construct_net (p\<lparr>batch_norm_count := 0\<rparr>)"

text \<open>
  The files that \<^verbatim>\<open>init_net\<close> opens: the two summary writers
  (\<^verbatim>\<open>leelalogs/<name>-test\<close> and \<^verbatim>\<open>leelalogs/<name>-train\<close>), created after
  \<^verbatim>\<open>construct_net\<close> has returned. Nothing before that point, in \<^verbatim>\<open>__init__\<close>,
  \<^verbatim>\<open>init\<close> or \<^verbatim>\<open>init_net\<close>, reads or writes a file. \<open>init_net_io\<close> is
  \<open>init_net\<close> together with the list of the files opened on the way.
\<close>

datatype io_event = FileWriter_test | FileWriter_train

definition init_net_io :: "tfprocess \<Rightarrow> io_event list \<times> (error + tfprocess)" where
  "init_net_io p =
     (case init_net p of
        Inl e \<Rightarrow> ([], Inl e)
      | Inr p' \<Rightarrow> ([FileWriter_test, FileWriter_train], Inr p'))"

section \<open>Tensor values\<close>

text \<open>
  A tensor element. The arithmetic of the codec is modelled exactly: a finite value is a
  real number, and the three special values of IEEE arithmetic are kept so that a square
  root of a negative number or a division by zero is what the program computes, not
  what \<open>sqrt\<close> and \<open>/\<close> of HOL return there. Rounding, overflow and the sign of zero
  are outside the model.
\<close>

datatype fval = Finite real | PosInf | NegInf | NaN

fun fadd :: "fval \<Rightarrow> fval \<Rightarrow> fval" where
  "fadd (Finite a) (Finite b) = Finite (a + b)"
| "fadd NaN y = NaN"
| "fadd x NaN = NaN"
| "fadd PosInf NegInf = NaN"
| "fadd NegInf PosInf = NaN"
| "fadd PosInf y = PosInf"
| "fadd x PosInf = PosInf"
| "fadd NegInf y = NegInf"
| "fadd x NegInf = NegInf"

fun fsqrt :: "fval \<Rightarrow> fval" where
  "fsqrt (Finite a) = (if a < 0 then NaN else Finite (sqrt a))"
| "fsqrt PosInf = PosInf"
| "fsqrt NegInf = NaN"
| "fsqrt NaN = NaN"

fun fmul :: "fval \<Rightarrow> fval \<Rightarrow> fval" where
  "fmul (Finite a) (Finite b) = Finite (a * b)"
| "fmul NaN y = NaN"
| "fmul x NaN = NaN"
| "fmul PosInf (Finite b) = (if b = 0 then NaN else if 0 < b then PosInf else NegInf)"
| "fmul NegInf (Finite b) = (if b = 0 then NaN else if 0 < b then NegInf else PosInf)"
| "fmul (Finite a) PosInf = (if a = 0 then NaN else if 0 < a then PosInf else NegInf)"
| "fmul (Finite a) NegInf = (if a = 0 then NaN else if 0 < a then NegInf else PosInf)"
| "fmul PosInf PosInf = PosInf"
| "fmul NegInf NegInf = PosInf"
| "fmul PosInf NegInf = NegInf"
| "fmul NegInf PosInf = NegInf"

fun fdiv :: "fval \<Rightarrow> fval \<Rightarrow> fval" where
  "fdiv (Finite a) (Finite b) =
     (if b = 0 then (if a = 0 then NaN else if 0 < a then PosInf else NegInf)
      else Finite (a / b))"
| "fdiv NaN y = NaN"
| "fdiv x NaN = NaN"
| "fdiv (Finite a) PosInf = Finite 0"
| "fdiv (Finite a) NegInf = Finite 0"
| "fdiv PosInf (Finite b) = (if b < 0 then NegInf else PosInf)"
| "fdiv NegInf (Finite b) = (if b < 0 then PosInf else NegInf)"
| "fdiv PosInf PosInf = NaN"
| "fdiv PosInf NegInf = NaN"
| "fdiv NegInf PosInf = NaN"
| "fdiv NegInf NegInf = NaN"


section \<open>Graph variables and TensorFlow operations\<close>

text \<open>
  The variables of the graph with their current values in the session, by tensor name.
  A value is the flat list of the tensor's elements in row-major order of its shape
  (what \<^verbatim>\<open>np.ravel\<close> returns); TensorFlow keeps its length equal to the product of
  the shape.
\<close>

type_synonym session = "string \<rightharpoonup> fval list"

text \<open>Row-major multi-index of a flat position, and the stride of an axis.\<close>

fun unravel :: "nat list \<Rightarrow> nat \<Rightarrow> nat list" where
  "unravel [] i = []"
| "unravel (d # ds) i = (i div prod_list ds) mod d # unravel ds i"

definition stride :: "nat list \<Rightarrow> nat \<Rightarrow> nat" where
  "stride sh a = prod_list (drop (Suc a) sh)"

text \<open>
  \<^verbatim>\<open>tf.transpose(x, perm)\<close> on a tensor of shape \<open>sh\<close>: axis \<open>k\<close> of the result
  is axis \<open>perm ! k\<close> of \<open>x\<close>, so the element at the result's multi-index \<open>is\<close> is the
  element of \<open>x\<close> whose index along axis \<open>perm ! k\<close> is \<open>is ! k\<close>.
\<close>

definition transpose_shape :: "nat list \<Rightarrow> nat list \<Rightarrow> nat list" where
  "transpose_shape sh perm = map (\<lambda>a. sh ! a) perm"

definition src_index :: "nat list \<Rightarrow> nat list \<Rightarrow> nat \<Rightarrow> nat" where
  "src_index sh perm j =
     sum_list (map2 (\<lambda>i a. i * stride sh a) (unravel (transpose_shape sh perm) j) perm)"

definition tf_transpose :: "fval list \<Rightarrow> nat list \<Rightarrow> nat list \<Rightarrow> fval list" where
  "tf_transpose x sh perm =
     map (\<lambda>j. x ! src_index sh perm j) [0..<prod_list (transpose_shape sh perm)]"

text \<open>
  \<^verbatim>\<open>tf.constant(value, shape=shape)\<close> of TensorFlow 1.x on a flat list of numbers. A
  list with exactly as many elements as the shape is taken as it is. A longer list is
  refused. A shorter list is filled up with its last element, an empty one with zeros.
  For a shape without elements the list is not looked at.
\<close>

definition tf_constant :: "fval list \<Rightarrow> nat list \<Rightarrow> error + fval list" where
  "tf_constant v sh =
     (let n = prod_list sh in
      if n = 0 then Inr []
      else if length v = n then Inr v
      else if n < length v then Inl ValueError
      else if v = [] then Inr (replicate n (Finite 0))
      else Inr (v @ replicate (n - length v) (last v)))"

section \<open>Names\<close>

text \<open>Python's \<^verbatim>\<open>s.endswith(suffix)\<close> and \<^verbatim>\<open>s.replace(old, new)\<close>.\<close>

definition endswith :: "string \<Rightarrow> string \<Rightarrow> bool" where
  "endswith s suf = (drop (length s - length suf) s = suf)"

fun replace :: "string \<Rightarrow> string \<Rightarrow> string \<Rightarrow> string" where
  "replace s [] new = new @ concat (map (\<lambda>c. c # new) s)"
| "replace [] (a # old) new = []"
| "replace (c # s) (a # old) new =
     (if take (length (a # old)) (c # s) = a # old
      then new @ replace (drop (length old) s) (a # old) new
      else c # replace s (a # old) new)"

section \<open>Export: \<^verbatim>\<open>save_leelaz_weights\<close>\<close>

definition VERSION :: int where
  "VERSION = 2"

text \<open>
  What \<^verbatim>\<open>save_leelaz_weights\<close> writes: the version tag, then one line per tensor.
  A line is kept as the list of the numbers whose \<^verbatim>\<open>str\<close> the program joins with
  spaces; the decimal formatting itself is not modelled.
\<close>

record exchange_file =
  version :: int
  lines :: "fval list list"

text \<open>
  The \<^verbatim>\<open>if/elif\<close> chain that builds \<^verbatim>\<open>work_weights\<close>, and its evaluation in
  the session. \<^verbatim>\<open>get_tensor_by_name\<close> raises \<open>KeyError\<close> for a name the graph does
  not have. Every tensor of \<^verbatim>\<open>self.weights\<close> is a variable of the graph, so the
  \<open>KeyError\<close> for the tensor itself is never met on a network built by \<open>construct_net\<close>.
\<close>

definition work_weights :: "session \<Rightarrow> tensor \<Rightarrow> error + fval list" where
  "work_weights sess w =
     (case sess (name w) of
        None \<Rightarrow> Inl KeyError
      | Some x \<Rightarrow>
          if endswith (name w) ''/batch_normalization/beta:0'' then
            (let var_key = replace (name w) ''beta'' ''moving_variance'' in
             case sess var_key of
               None \<Rightarrow> Inl KeyError
             | Some var \<Rightarrow>
                 Inr (map2 (\<lambda>b v. fmul b (fsqrt (fadd v (Finite (1 / 100000))))) x var))
          else if length (shape w) = 4 then Inr (tf_transpose x (shape w) [3, 2, 0, 1])
          else if length (shape w) = 2 then Inr (tf_transpose x (shape w) [1, 0])
          else Inr x)"

text \<open>
  The numbers of one line: for \<open>e = 0\<close> the rule-50 entries of the flattened array are
  divided by 99, every other line is the array as it is.
\<close>

definition wt_str :: "nat \<Rightarrow> fval list \<Rightarrow> fval list" where
  "wt_str e nparray =
     (if e = 0 then
        (let num_inputs = 112; rule50_input = 109 in
         map (\<lambda>(i, weight).
                if (i mod (num_inputs * 9)) div 9 = rule50_input
                then fdiv weight (Finite 99) else weight)
             (enumerate 0 nparray))
      else nparray)"

fun save_lines :: "nat \<Rightarrow> tensor list \<Rightarrow> session \<Rightarrow> error + fval list list" where
  "save_lines e [] sess = Inr []"
| "save_lines e (w # ws) sess =
     (case work_weights sess w of
        Inl err \<Rightarrow> Inl err
      | Inr nparray \<Rightarrow>
     (case save_lines (Suc e) ws sess of
        Inl err \<Rightarrow> Inl err
      | Inr rest \<Rightarrow> Inr (wt_str e nparray # rest)))"

definition save_leelaz_weights :: "tfprocess \<Rightarrow> session \<Rightarrow> error + exchange_file" where
  "save_leelaz_weights p sess =
     (case save_lines 0 (weights p) sess of
        Inl err \<Rightarrow> Inl err
      | Inr ls \<Rightarrow> Inr \<lparr>version = VERSION, lines = ls\<rparr>)"

section \<open>Import: \<^verbatim>\<open>replace_weights\<close>\<close>

text \<open>Python's \<^verbatim>\<open>new_weights[e]\<close> for an index \<open>e \<ge> 0\<close>.\<close>

definition getitem :: "'a list \<Rightarrow> nat \<Rightarrow> error + 'a" where
  "getitem xs e = (if e < length xs then Inr (xs ! e) else Inl IndexError)"

text \<open>
  The loop over \<^verbatim>\<open>range(len(new_weights[e]))\<close> that multiplies the rule-50 entries
  of the caller's list by 99, in place.
\<close>

definition rescale_rule50 :: "fval list \<Rightarrow> fval list" where
  "rescale_rule50 line =
     (let num_inputs = 112; rule50_input = 109 in
      map (\<lambda>(i, x).
             if (i mod (num_inputs * 9)) div 9 = rule50_input
             then fmul x (Finite 99) else x)
          (enumerate 0 line))"

text \<open>
  One iteration of the loop of \<^verbatim>\<open>replace_weights\<close>. An exception leaves the session
  and the caller's \<^verbatim>\<open>new_weights\<close> as they are at that moment, so the result
  carries both next to the exception (\<open>None\<close>: the iteration completed).
\<close>

definition replace_step ::
  "nat \<Rightarrow> tensor \<Rightarrow> session \<Rightarrow> fval list list \<Rightarrow> error option \<times> session \<times> fval list list" where
  "replace_step e w sess new_weights =
     (if endswith (name w) ''/batch_normalization/beta:0'' then
        (case getitem new_weights e of
           Inl err \<Rightarrow> (Some err, sess, new_weights)
         | Inr line \<Rightarrow>
        (case tf_constant line (shape w) of
           Inl err \<Rightarrow> (Some err, sess, new_weights)
         | Inr bias \<Rightarrow>
        (case getitem new_weights (e + 2) of
           Inl err \<Rightarrow> (Some err, sess, new_weights)
         | Inr line2 \<Rightarrow>
        (case tf_constant line2 (shape w) of
           Inl err \<Rightarrow> (Some err, sess, new_weights)
         | Inr var \<Rightarrow>
             (let new_beta =
                    map2 (\<lambda>b v. fdiv b (fsqrt (fadd v (Finite (1 / 100000))))) bias var
              in (None, sess(name w \<mapsto> new_beta), new_weights))))))
      else if length (shape w) = 4 then
        (case (if e = 0
               then (case getitem new_weights e of
                       Inl err \<Rightarrow> Inl err
                     | Inr line \<Rightarrow> Inr (new_weights[e := rescale_rule50 line]))
               else Inr new_weights) of
           Inl err \<Rightarrow> (Some err, sess, new_weights)
         | Inr new_weights' \<Rightarrow>
        (case getitem new_weights' e of
           Inl err \<Rightarrow> (Some err, sess, new_weights')
         | Inr line \<Rightarrow>
        (let s = shape w; sh = map (\<lambda>i. s ! i) [3, 2, 0, 1] in
         case tf_constant line sh of
           Inl err \<Rightarrow> (Some err, sess, new_weights')
         | Inr new_weight \<Rightarrow>
             (None, sess(name w \<mapsto> tf_transpose new_weight sh [2, 3, 1, 0]), new_weights'))))
      else if length (shape w) = 2 then
        (case getitem new_weights e of
           Inl err \<Rightarrow> (Some err, sess, new_weights)
         | Inr line \<Rightarrow>
        (let s = shape w; sh = map (\<lambda>i. s ! i) [1, 0] in
         case tf_constant line sh of
           Inl err \<Rightarrow> (Some err, sess, new_weights)
         | Inr new_weight \<Rightarrow>
             (None, sess(name w \<mapsto> tf_transpose new_weight sh [1, 0]), new_weights)))
      else
        (case getitem new_weights e of
           Inl err \<Rightarrow> (Some err, sess, new_weights)
         | Inr line \<Rightarrow>
        (case tf_constant line (shape w) of
           Inl err \<Rightarrow> (Some err, sess, new_weights)
         | Inr new_weight \<Rightarrow> (None, sess(name w \<mapsto> new_weight), new_weights))))"

text \<open>
  \<^verbatim>\<open>for e, weights in enumerate(self.weights)\<close>: the first argument is the index of
  the head of the list.
\<close>

fun replace_loop ::
  "nat \<Rightarrow> tensor list \<Rightarrow> session \<Rightarrow> fval list list \<Rightarrow> error option \<times> session \<times> fval list list" where
  "replace_loop e [] sess new_weights = (None, sess, new_weights)"
| "replace_loop e (w # ws) sess new_weights =
     (case replace_step e w sess new_weights of
        (Some err, sess', new_weights') \<Rightarrow> (Some err, sess', new_weights')
      | (None, sess', new_weights') \<Rightarrow> replace_loop (Suc e) ws sess' new_weights')"

definition replace_weights ::
  "tfprocess \<Rightarrow> session \<Rightarrow> fval list list \<Rightarrow> error option \<times> session \<times> fval list list" where
  "replace_weights p sess new_weights = replace_loop 0 (weights p) sess new_weights"

section \<open>The weight list in closed form\<close>

text \<open>
  The lists that the builders append to \<^verbatim>\<open>self.weights\<close>, written out: the four
  tensors of the convolution block with key number \<open>k\<close>, the residual tower that starts
  at key number \<open>c\<close>, the two tensors of a dense layer, and the whole network.
\<close>

definition conv_block_weights :: "nat \<Rightarrow> nat \<Rightarrow> nat \<Rightarrow> nat \<Rightarrow> tensor list" where
  "conv_block_weights k fs ic oc =
     [\<lparr>name = ''bn'' @ str k @ ''/conv_weight:0'', shape = [fs, fs, ic, oc]\<rparr>,
      \<lparr>name = ''bn'' @ str k @ ''/batch_normalization/beta:0'', shape = [oc]\<rparr>,
      \<lparr>name = ''bn'' @ str k @ ''/batch_normalization/moving_mean:0'', shape = [oc]\<rparr>,
      \<lparr>name = ''bn'' @ str k @ ''/batch_normalization/moving_variance:0'', shape = [oc]\<rparr>]"

fun tower_weights :: "nat \<Rightarrow> nat \<Rightarrow> nat \<Rightarrow> tensor list" where
  "tower_weights c 0 f = []"
| "tower_weights c (Suc k) f =
     conv_block_weights c 3 f f @ conv_block_weights (Suc c) 3 f f @ tower_weights (c + 2) k f"

definition head_weights :: "string \<Rightarrow> nat \<Rightarrow> nat \<Rightarrow> tensor list" where
  "head_weights key n_in n_out =
     [\<lparr>name = key @ ''/weight:0'', shape = [n_in, n_out]\<rparr>,
      \<lparr>name = key @ ''/bias:0'', shape = [n_out]\<rparr>]"

definition net_weights :: "nat \<Rightarrow> nat \<Rightarrow> nat \<Rightarrow> tensor list" where
  "net_weights c f b =
     conv_block_weights c 3 112 f @ tower_weights (c + 1) b f @
     conv_block_weights (c + 1 + 2 * b) 1 f 32 @ head_weights ''fc1'' 2048 1858 @
     conv_block_weights (c + 2 + 2 * b) 1 f 32 @ head_weights ''fc2'' 2048 128 @
     head_weights ''fc3'' 128 1"

section \<open>Vocabulary of the proofs\<close>

text \<open>
  Row-major flat position of a multi-index (\<^verbatim>\<open>np.ravel_multi_index\<close>), the inverse
  of \<open>unravel\<close> on indices within the shape.
\<close>

fun ravel :: "nat list \<Rightarrow> nat list \<Rightarrow> nat" where
  "ravel (d # ds) (i # is) = i * prod_list ds + ravel ds is"
| "ravel ds is = 0"

text \<open>
  A tensor of \<^verbatim>\<open>self.weights\<close> is a shift (beta) tensor when its name passes the test
  of the exporter and the importer.
\<close>

definition is_beta :: "tensor \<Rightarrow> bool" where
  "is_beta w = endswith (name w) ''/batch_normalization/beta:0''"

text \<open>
  The layout of a normalization layer in the weight list: a shift at position \<open>e\<close> is
  followed by the running mean and the running variance of the same layer, whose names
  are the shift's name with \<^verbatim>\<open>beta\<close> replaced, all three of one shape with a
  single axis. \<open>bn_layers\<close> says so for every shift of a list, \<open>first_is_conv\<close> that the
  list starts with a convolution kernel.
\<close>

definition bn_layer_at :: "tensor list \<Rightarrow> nat \<Rightarrow> bool" where
  "bn_layer_at ws e \<longleftrightarrow>
     0 < e \<and> e + 2 < length ws \<and>
     name (ws ! (e + 1)) = replace (name (ws ! e)) ''beta'' ''moving_mean'' \<and>
     name (ws ! (e + 2)) = replace (name (ws ! e)) ''beta'' ''moving_variance'' \<and>
     shape (ws ! (e + 1)) = shape (ws ! e) \<and> shape (ws ! (e + 2)) = shape (ws ! e) \<and>
     length (shape (ws ! e)) = 1 \<and> \<not> is_beta (ws ! (e + 1)) \<and> \<not> is_beta (ws ! (e + 2))"

definition bn_layers :: "tensor list \<Rightarrow> bool" where
  "bn_layers ws \<longleftrightarrow> (\<forall>e<length ws. is_beta (ws ! e) \<longrightarrow> bn_layer_at ws e)"

definition first_is_conv :: "tensor list \<Rightarrow> bool" where
  "first_is_conv ws \<longleftrightarrow> (ws \<noteq> [] \<longrightarrow> \<not> is_beta (ws ! 0) \<and> length (shape (ws ! 0)) = 4)"


definition well_shaped :: "tensor list \<Rightarrow> session \<Rightarrow> bool" where
  "well_shaped ws sess \<longleftrightarrow>
     (\<forall>w\<in>set ws. \<exists>x. sess (name w) = Some x \<and> length x = prod_list (shape w))"


text \<open>
  The elementwise fold of the exporter and unfold of the importer, named.
\<close>

definition fold_bias :: "fval list \<Rightarrow> fval list \<Rightarrow> fval list" where
  "fold_bias x var = map2 (\<lambda>b v. fmul b (fsqrt (fadd v (Finite (1 / 100000))))) x var"


text \<open>
  A name of the form \<^verbatim>\<open>bn<k>/...\<close> with \<open>lo \<le> k < hi\<close>: what every tensor of the
  convolution blocks with key numbers in that range is called.
\<close>

definition bn_name :: "nat \<Rightarrow> nat \<Rightarrow> string \<Rightarrow> bool" where
  "bn_name lo hi n \<longleftrightarrow> (\<exists>k t. lo \<le> k \<and> k < hi \<and> n = ''bn'' @ str k @ CHR ''/'' # t)"

text \<open>
  Example values: the tensor with the \<open>n\<close> pairwise different entries \<open>0, 1, \<dots>, n - 1\<close>.
\<close>

definition ramp :: "nat \<Rightarrow> fval list" where
  "ramp n = map (\<lambda>i. Finite (real i)) [0..<n]"

text \<open>
  Example values: the tensor of a given shape with all entries equal, and the session
  in which every tensor of a list holds such a value.
\<close>

definition full :: "nat list \<Rightarrow> fval \<Rightarrow> fval list" where
  "full sh v = replicate (prod_list sh) v"

definition uniform_session :: "tensor list \<Rightarrow> fval \<Rightarrow> session" where
  "uniform_session ws v = map_of (map (\<lambda>w. (name w, full (shape w) v)) ws)"



section \<open>Topology construction: results\<close>

lemma tf_Variable_nonneg:
  "list_all (\<lambda>d. 0 \<le> d) sh \<Longrightarrow>
   tf_Variable sh nm = Inr \<lparr>name = nm @ '':0'', shape = map nat sh\<rparr>"
  by (auto simp: tf_Variable_def list_ex_iff list_all_iff)

lemma conv2d_ok:
  "0 < ic \<Longrightarrow> conv2d ic \<lparr>name = nm, shape = [fh, fw, ic, oc]\<rparr> = Inr oc"
  by (simp add: conv2d_def)

lemma conv2d_zero:
  "conv2d x \<lparr>name = nm, shape = [fh, fw, 0, oc]\<rparr> = Inl ValueError"
  by (simp add: conv2d_def)

lemma batch_normalization_eq:
  "batch_normalization key x =
     Inr (\<lparr>name = key @ ''/batch_normalization/beta:0'', shape = [x]\<rparr>,
          \<lparr>name = key @ ''/batch_normalization/moving_mean:0'', shape = [x]\<rparr>,
          \<lparr>name = key @ ''/batch_normalization/moving_variance:0'', shape = [x]\<rparr>)"
  by (simp add: batch_normalization_def tf_Variable_nonneg)

lemma conv_block_eq:
  assumes "0 \<le> fs" "0 < ic" "0 \<le> oc" "inputs = nat ic"
  shows "conv_block p inputs fs ic oc =
           Inr (nat oc, p\<lparr>batch_norm_count := batch_norm_count p + 1,
                  weights := weights p @
                    conv_block_weights (batch_norm_count p) (nat fs) (nat ic) (nat oc)\<rparr>)"
  using assms
  by (simp add: conv_block_def get_batchnorm_key_def weight_variable_def
      batch_normalization_eq tf_Variable_nonneg conv2d_ok conv_block_weights_def)

lemma conv_block_zero_input:
  assumes "0 \<le> fs" "0 \<le> oc" "fs + fs + oc \<noteq> 0"
  shows "conv_block p inputs fs 0 oc = Inl ValueError"
  using assms
  by (simp add: conv_block_def get_batchnorm_key_def weight_variable_def
      tf_Variable_nonneg conv2d_zero)

lemma residual_block_eq:
  assumes "0 < ch" "inputs = nat ch"
  shows "residual_block p inputs ch =
           Inr (nat ch, p\<lparr>batch_norm_count := batch_norm_count p + 2,
                  weights := weights p @
                    conv_block_weights (batch_norm_count p) 3 (nat ch) (nat ch) @
                    conv_block_weights (Suc (batch_norm_count p)) 3 (nat ch) (nat ch)\<rparr>)"
  using assms
  by (simp add: residual_block_def get_batchnorm_key_def weight_variable_def
      batch_normalization_eq tf_Variable_nonneg conv2d_ok tf_add_def conv_block_weights_def)

lemma residual_block_zero:
  "residual_block p inputs 0 = Inl ValueError"
  by (simp add: residual_block_def get_batchnorm_key_def weight_variable_def
      tf_Variable_nonneg conv2d_zero)

lemma residual_tower_eq:
  assumes "RESIDUAL_FILTERS p = F" "0 < F"
  shows "residual_tower k p (nat F) =
           Inr (nat F, p\<lparr>batch_norm_count := batch_norm_count p + 2 * k,
                  weights := weights p @ tower_weights (batch_norm_count p) k (nat F)\<rparr>)"
  using assms
proof (induction k arbitrary: p)
  case 0
  then show ?case by simp
next
  case (Suc k)
  then show ?case by (simp add: residual_block_eq)
qed

lemma construct_net_eq:
  assumes "0 < RESIDUAL_FILTERS p"
  shows "construct_net p =
           Inr (p\<lparr>batch_norm_count := batch_norm_count p + 3 + 2 * nat (RESIDUAL_BLOCKS p),
                  weights := weights p @
                    net_weights (batch_norm_count p) (nat (RESIDUAL_FILTERS p))
                      (nat (RESIDUAL_BLOCKS p))\<rparr>)"
  using assms
  by (simp add: construct_net_def conv_block_eq residual_tower_eq weight_variable_def
      bias_variable_def tf_Variable_nonneg net_weights_def head_weights_def)

lemma construct_net_negative:
  assumes "RESIDUAL_FILTERS p < 0"
  shows "construct_net p =
           Inl (if RESIDUAL_FILTERS p = - 118 then ZeroDivisionError else ValueError)"
  using assms
  by (simp add: construct_net_def conv_block_def get_batchnorm_key_def weight_variable_def
      tf_Variable_def)

lemma first_block_zero:
  "conv_block p 112 3 112 0 =
     Inr (0, p\<lparr>batch_norm_count := batch_norm_count p + 1,
                weights := weights p @ conv_block_weights (batch_norm_count p) 3 112 0\<rparr>)"
  using conv_block_eq [of 3 112 0 112 p] by simp

lemma construct_net_zero:
  assumes "RESIDUAL_FILTERS p = 0"
  shows "construct_net p = Inl ValueError"
proof (cases "nat (RESIDUAL_BLOCKS p)")
  case 0
  then show ?thesis using assms
    by (simp add: construct_net_def first_block_zero conv_block_zero_input)
next
  case (Suc k)
  then show ?thesis using assms
    by (simp add: construct_net_def first_block_zero residual_block_zero)
qed

lemma init_net_eq:
  "0 < F \<Longrightarrow>
   init_net (TFProcess F B) =
     Inr \<lparr>RESIDUAL_FILTERS = F, RESIDUAL_BLOCKS = B,
          weights = net_weights 0 (nat F) (nat B), batch_norm_count = 3 + 2 * nat B\<rparr>"
  by (simp add: init_net_def TFProcess_def construct_net_eq)

lemma init_net_nonpos:
  "F \<le> 0 \<Longrightarrow>
   init_net (TFProcess F B) = Inl (if F = - 118 then ZeroDivisionError else ValueError)"
  by (cases "F = 0")
     (simp_all add: init_net_def TFProcess_def construct_net_zero construct_net_negative)

lemma init_net_weights:
  assumes "init_net (TFProcess F B) = Inr p"
  shows "0 < F \<and> weights p = net_weights 0 (nat F) (nat B)"
proof (cases "0 < F")
  case True
  with assms show ?thesis by (auto simp: init_net_eq)
next
  case False
  with assms show ?thesis by (simp add: init_net_nonpos)
qed

lemma length_tower_weights: "length (tower_weights c k f) = 8 * k"
  by (induction k arbitrary: c) (simp_all add: conv_block_weights_def)

lemma length_net_weights: "length (net_weights c f b) = 4 + 8 * b + 14"
  by (simp add: net_weights_def length_tower_weights conv_block_weights_def head_weights_def)

text \<open>
  \<^bold>\<open>C4.\<close> For every configuration with \<open>F > 0\<close> filters and \<open>B \<ge> 0\<close> residual blocks the
  network is built and its ordered weight list has exactly \<open>4 + 8 B + 14\<close> entries
  (26 for \<open>B = 1\<close>, 18 for \<open>B = 0\<close>).
\<close>

theorem construct_net_weight_count:
  assumes "0 < F" and "0 \<le> B"
  shows "\<exists>p. init_net (TFProcess F B) = Inr p \<and> int (length (weights p)) = 4 + 8 * B + 14"
  using assms by (simp add: init_net_eq length_net_weights)

theorem construct_net_weight_count_witness:
  "(\<exists>p. init_net (TFProcess 4 1) = Inr p \<and> length (weights p) = 26) \<and>
   (\<exists>p. init_net (TFProcess 1 0) = Inr p \<and> length (weights p) = 18)"
  using construct_net_weight_count [of 4 1] construct_net_weight_count [of 1 0] by simp

text \<open>
  \<^bold>\<open>C5\<close>, as the claim states it, fails: with 64 filters and \<open>-1\<close> residual blocks the
  construction raises nothing and returns the 18 tensors of a network without tower.
\<close>

theorem negative_blocks_accepted_counterexample:
  "map_sum id (length \<circ> weights) (init_net (TFProcess 64 (- 1))) = Inr 18"
  by (simp add: init_net_eq length_net_weights)

text \<open>
  \<^bold>\<open>C5\<close>, amended. Topology construction fails, before any file is opened, whenever
  \<open>F \<le> 0\<close>; the configuration error that surfaces is the \<open>ValueError\<close> of TensorFlow
  (of the variable constructor for \<open>F < 0\<close>, of \<^verbatim>\<open>conv2d\<close> for \<open>F = 0\<close>), and
  \<open>ZeroDivisionError\<close> when the dimensions of the first kernel sum to zero
  (\<open>F = -118\<close>). For \<open>F > 0\<close> and \<open>B \<ge> 0\<close> it succeeds. It does not fail for \<open>B < 0\<close>:
  with \<open>F > 0\<close> the loop over \<^verbatim>\<open>range(0, B)\<close> is then empty and the construction
  succeeds with the 18 tensors of \<open>B = 0\<close>.
\<close>

theorem construct_net_no_validation:
  "(F \<le> 0 \<longrightarrow>
      init_net_io (TFProcess F B) =
        ([], Inl (if F = - 118 then ZeroDivisionError else ValueError))) \<and>
   (0 < F \<longrightarrow>
      (\<exists>p. init_net_io (TFProcess F B) = ([FileWriter_test, FileWriter_train], Inr p) \<and>
           length (weights p) = 18 + 8 * nat B))"
  by (simp add: init_net_io_def init_net_eq init_net_nonpos length_net_weights)

theorem construct_net_no_validation_witness:
  "(\<exists>p. init_net_io (TFProcess 64 (- 3)) = ([FileWriter_test, FileWriter_train], Inr p) \<and>
        length (weights p) = 18) \<and>
   (\<exists>p. init_net_io (TFProcess 64 2) = ([FileWriter_test, FileWriter_train], Inr p) \<and>
        length (weights p) = 34) \<and>
   init_net_io (TFProcess 0 2) = ([], Inl ValueError) \<and>
   init_net_io (TFProcess 0 (- 1)) = ([], Inl ValueError) \<and>
   init_net_io (TFProcess (- 118) 2) = ([], Inl ZeroDivisionError) \<and>
   init_net_io (TFProcess (- 1) 2) = ([], Inl ValueError)"
  using construct_net_no_validation [of 64 "- 3"] construct_net_no_validation [of 64 2]
    construct_net_no_validation [of 0 2] construct_net_no_validation [of 0 "- 1"]
    construct_net_no_validation [of "- 118" 2] construct_net_no_validation [of "- 1" 2]
  by simp

section \<open>Transposition\<close>

lemma ravel_less: "list_all2 (<) is ds \<Longrightarrow> ravel ds is < prod_list ds"
proof (induction "is" ds rule: list_all2_induct)
  case Nil
  then show ?case by simp
next
  case (Cons i "is" d ds)
  have "i * prod_list ds + ravel ds is < i * prod_list ds + prod_list ds"
    using Cons.IH by simp
  also have "\<dots> = Suc i * prod_list ds" by simp
  also have "\<dots> \<le> d * prod_list ds"
    using Cons.hyps(1) by (intro mult_le_mono1) simp
  finally show ?case by simp
qed

lemma unravel_periodic: "unravel ds (m * prod_list ds + r) = unravel ds r"
proof (induction ds arbitrary: m)
  case Nil
  then show ?case by simp
next
  case (Cons d ds)
  have a: "(m * (d * prod_list ds) + r) div prod_list ds mod d = r div prod_list ds mod d"
  proof (cases "prod_list ds = 0")
    case True
    then show ?thesis by simp
  next
    case False
    have "((m * d) * prod_list ds + r) div prod_list ds = m * d + r div prod_list ds"
      using False by (rule div_mult_self3)
    then have "(m * (d * prod_list ds) + r) div prod_list ds = m * d + r div prod_list ds"
      by (simp only: mult.assoc)
    then show ?thesis by simp
  qed
  have b: "unravel ds (m * (d * prod_list ds) + r) = unravel ds r"
    using Cons.IH [of "m * d"] by (simp only: mult.assoc)
  show ?case using a b by simp
qed

lemma unravel_ravel: "list_all2 (<) is ds \<Longrightarrow> unravel ds (ravel ds is) = is"
proof (induction "is" ds rule: list_all2_induct)
  case Nil
  then show ?case by simp
next
  case (Cons i "is" d ds)
  have r: "ravel ds is < prod_list ds" using Cons.hyps(2) by (rule ravel_less)
  have "(i * prod_list ds + ravel ds is) div prod_list ds = i"
    using r by simp
  moreover have "unravel ds (i * prod_list ds + ravel ds is) = is"
    using unravel_periodic [of ds i "ravel ds is"] Cons.IH by simp
  ultimately show ?case using Cons.hyps(1) by simp
qed

lemma ravel_unravel: "k < prod_list ds \<Longrightarrow> ravel ds (unravel ds k) = k"
proof (induction ds arbitrary: k)
  case Nil
  then show ?case by simp
next
  case (Cons d ds)
  let ?P = "prod_list ds"
  have P: "0 < ?P" using Cons.prems by (cases "?P = 0") auto
  have q: "k div ?P < d" using Cons.prems P
    by (simp add: less_mult_imp_div_less mult.commute)
  have "unravel ds k = unravel ds (k mod ?P)"
    using unravel_periodic [of ds "k div ?P" "k mod ?P"] by simp
  then have "ravel ds (unravel ds k) = k mod ?P"
    using Cons.IH [of "k mod ?P"] P by simp
  then show ?case using q by simp
qed

lemma unravel_bounds: "k < prod_list ds \<Longrightarrow> list_all2 (<) (unravel ds k) ds"
proof (induction ds arbitrary: k)
  case Nil
  then show ?case by simp
next
  case (Cons d ds)
  have d: "0 < d" using Cons.prems by (cases "d = 0") auto
  have P: "0 < prod_list ds" using Cons.prems by (cases "prod_list ds = 0") auto
  have "unravel ds k = unravel ds (k mod prod_list ds)"
    using unravel_periodic [of ds "k div prod_list ds" "k mod prod_list ds"] by simp
  moreover have "list_all2 (<) (unravel ds (k mod prod_list ds)) ds"
    using P by (intro Cons.IH) simp
  ultimately have "list_all2 (<) (unravel ds k) ds" by (simp only:)
  then show ?case using d by simp
qed

lemma length_tf_transpose [simp]:
  "length (tf_transpose x sh perm) = prod_list (transpose_shape sh perm)"
  by (simp add: tf_transpose_def)

lemma nth_tf_transpose:
  "j < prod_list (transpose_shape sh perm) \<Longrightarrow>
   tf_transpose x sh perm ! j = x ! src_index sh perm j"
  by (simp add: tf_transpose_def)

lemma src_index_export_conv:
  assumes "oi < oc" "ci < ic" "y < h" "kx < w"
  shows "src_index [h, w, ic, oc] [3, 2, 0, 1] (((oi * ic + ci) * h + y) * w + kx) =
           ((y * w + kx) * ic + ci) * oc + oi"
proof -
  have a: "unravel [oc, ic, h, w] (ravel [oc, ic, h, w] [oi, ci, y, kx]) = [oi, ci, y, kx]"
    using assms by (intro unravel_ravel) simp
  have b: "ravel [oc, ic, h, w] [oi, ci, y, kx] = ((oi * ic + ci) * h + y) * w + kx"
    by (simp add: algebra_simps)
  have u: "unravel [oc, ic, h, w] (((oi * ic + ci) * h + y) * w + kx) = [oi, ci, y, kx]"
    using a unfolding b .
  have ts: "transpose_shape [h, w, ic, oc] [3, 2, 0, 1] = [oc, ic, h, w]"
    by (simp add: transpose_shape_def)
  have st: "stride [h, w, ic, oc] 3 = 1" "stride [h, w, ic, oc] 2 = oc"
    "stride [h, w, ic, oc] 0 = w * (ic * oc)" "stride [h, w, ic, oc] (Suc 0) = ic * oc"
    by (simp_all add: stride_def)
  show ?thesis
    unfolding src_index_def ts u by (simp add: st algebra_simps)
qed

lemma src_index_import_conv:
  assumes "oi < oc" "ci < ic" "y < h" "kx < w"
  shows "src_index [oc, ic, h, w] [2, 3, 1, 0] (((y * w + kx) * ic + ci) * oc + oi) =
           ((oi * ic + ci) * h + y) * w + kx"
proof -
  have a: "unravel [h, w, ic, oc] (ravel [h, w, ic, oc] [y, kx, ci, oi]) = [y, kx, ci, oi]"
    using assms by (intro unravel_ravel) simp
  have b: "ravel [h, w, ic, oc] [y, kx, ci, oi] = ((y * w + kx) * ic + ci) * oc + oi"
    by (simp add: algebra_simps)
  have u: "unravel [h, w, ic, oc] (((y * w + kx) * ic + ci) * oc + oi) = [y, kx, ci, oi]"
    using a unfolding b .
  have ts: "transpose_shape [oc, ic, h, w] [2, 3, 1, 0] = [h, w, ic, oc]"
    by (simp add: transpose_shape_def)
  have st: "stride [oc, ic, h, w] 3 = 1" "stride [oc, ic, h, w] 2 = w"
    "stride [oc, ic, h, w] 0 = ic * (h * w)" "stride [oc, ic, h, w] (Suc 0) = h * w"
    by (simp_all add: stride_def)
  show ?thesis
    unfolding src_index_def ts u by (simp add: st algebra_simps)
qed

lemma src_index_dense:
  assumes "i < n" "j < m"
  shows "src_index [n, m] [1, 0] (j * n + i) = i * m + j"
proof -
  have a: "unravel [m, n] (ravel [m, n] [j, i]) = [j, i]"
    using assms by (intro unravel_ravel) simp
  have b: "ravel [m, n] [j, i] = j * n + i" by simp
  have u: "unravel [m, n] (j * n + i) = [j, i]"
    using a unfolding b .
  have ts: "transpose_shape [n, m] [1, 0] = [m, n]"
    by (simp add: transpose_shape_def)
  have st: "stride [n, m] 0 = m" "stride [n, m] (Suc 0) = 1"
    by (simp_all add: stride_def)
  show ?thesis
    unfolding src_index_def ts u by (simp add: st)
qed

lemma split4:
  fixes a b c d :: nat
  assumes "k < a * b * c * d"
  obtains i j l m where "i < a" "j < b" "l < c" "m < d" "k = ((i * b + j) * c + l) * d + m"
proof -
  define i where "i = k div (b * (c * d)) mod a"
  define j where "j = k div (c * d) mod b"
  define l where "l = k div d mod c"
  define m where "m = k mod d"
  have k: "k < prod_list [a, b, c, d]" using assms by (simp add: mult.assoc)
  have u: "unravel [a, b, c, d] k = [i, j, l, m]"
    by (simp add: i_def j_def l_def m_def)
  have bnd: "list_all2 (<) [i, j, l, m] [a, b, c, d]"
    using unravel_bounds [OF k] by (simp only: u)
  have "ravel [a, b, c, d] [i, j, l, m] = k"
    using ravel_unravel [OF k] by (simp only: u)
  then have "k = ((i * b + j) * c + l) * d + m"
    by (simp add: algebra_simps)
  then show ?thesis using bnd that [of i j l m] by simp
qed

lemma split2:
  fixes a b :: nat
  assumes "k < a * b"
  obtains i j where "i < a" "j < b" "k = i * b + j"
proof -
  define i where "i = k div b mod a"
  define j where "j = k mod b"
  have k: "k < prod_list [a, b]" using assms by simp
  have u: "unravel [a, b] k = [i, j]"
    by (simp add: i_def j_def)
  have bnd: "list_all2 (<) [i, j] [a, b]"
    using unravel_bounds [OF k] by (simp only: u)
  have "ravel [a, b] [i, j] = k"
    using ravel_unravel [OF k] by (simp only: u)
  then have "k = i * b + j" by simp
  then show ?thesis using bnd that [of i j] by simp
qed

lemma idx4_less:
  assumes "i < a" "j < b" "l < c" "m < (d::nat)"
  shows "((i * b + j) * c + l) * d + m < a * b * c * d"
proof -
  have "ravel [a, b, c, d] [i, j, l, m] < prod_list [a, b, c, d]"
    using assms by (intro ravel_less) simp
  then show ?thesis by (simp add: algebra_simps)
qed

lemma idx2_less:
  assumes "i < a" "j < (b::nat)"
  shows "i * b + j < a * b"
proof -
  have "ravel [a, b] [i, j] < prod_list [a, b]"
    using assms by (intro ravel_less) simp
  then show ?thesis by (simp add: algebra_simps)
qed

lemma nth_export_conv:
  assumes "oi < oc" "ci < ic" "y < h" "kx < w"
  shows "tf_transpose x [h, w, ic, oc] [3, 2, 0, 1] ! (((oi * ic + ci) * h + y) * w + kx) =
           x ! (((y * w + kx) * ic + ci) * oc + oi)"
proof -
  have "((oi * ic + ci) * h + y) * w + kx < oc * ic * h * w"
    using assms by (intro idx4_less)
  then have "((oi * ic + ci) * h + y) * w + kx < prod_list (transpose_shape [h, w, ic, oc] [3, 2, 0, 1])"
    by (simp add: transpose_shape_def mult.assoc)
  then show ?thesis
    using src_index_export_conv [OF assms] by (simp only: nth_tf_transpose)
qed

lemma nth_import_conv:
  assumes "oi < oc" "ci < ic" "y < h" "kx < w"
  shows "tf_transpose v [oc, ic, h, w] [2, 3, 1, 0] ! (((y * w + kx) * ic + ci) * oc + oi) =
           v ! (((oi * ic + ci) * h + y) * w + kx)"
proof -
  have "((y * w + kx) * ic + ci) * oc + oi < h * w * ic * oc"
    using assms by (intro idx4_less)
  then have "((y * w + kx) * ic + ci) * oc + oi < prod_list (transpose_shape [oc, ic, h, w] [2, 3, 1, 0])"
    by (simp add: transpose_shape_def mult.assoc)
  then show ?thesis
    using src_index_import_conv [OF assms] by (simp only: nth_tf_transpose)
qed

lemma nth_dense:
  assumes "i < n" "j < m"
  shows "tf_transpose x [n, m] [1, 0] ! (j * n + i) = x ! (i * m + j)"
proof -
  have "j * n + i < m * n" using assms by (intro idx2_less)
  then have "j * n + i < prod_list (transpose_shape [n, m] [1, 0])"
    by (simp add: transpose_shape_def)
  then show ?thesis
    using src_index_dense [OF assms] by (simp only: nth_tf_transpose)
qed

lemma conv_roundtrip:
  assumes "length x = h * w * ic * oc"
  shows "tf_transpose (tf_transpose x [h, w, ic, oc] [3, 2, 0, 1]) [oc, ic, h, w] [2, 3, 1, 0] = x"
    (is "?l = x")
proof (rule nth_equalityI)
  show "length ?l = length x"
    using assms by (simp add: transpose_shape_def mult.assoc)
next
  fix k
  assume "k < length ?l"
  then have k: "k < h * w * ic * oc" by (simp add: transpose_shape_def mult.assoc)
  then obtain y kx ci oi where b: "oi < oc" "ci < ic" "y < h" "kx < w"
    and keq: "k = ((y * w + kx) * ic + ci) * oc + oi"
    by (rule split4) blast
  show "?l ! k = x ! k"
    unfolding keq nth_import_conv [OF b] nth_export_conv [OF b] ..
qed

lemma dense_roundtrip:
  assumes "length x = n * m"
  shows "tf_transpose (tf_transpose x [n, m] [1, 0]) [m, n] [1, 0] = x" (is "?l = x")
proof (rule nth_equalityI)
  show "length ?l = length x"
    using assms by (simp add: transpose_shape_def)
next
  fix k
  assume "k < length ?l"
  then have k: "k < n * m" by (simp add: transpose_shape_def)
  then obtain i j where b: "i < n" "j < m" and keq: "k = i * m + j"
    by (rule split2)
  show "?l ! k = x ! k"
    unfolding keq nth_dense [OF b(2) b(1)] nth_dense [OF b] ..
qed

section \<open>Rescaling and names\<close>

lemma length_wt_str [simp]: "length (wt_str e xs) = length xs"
  by (simp add: wt_str_def)

lemma nth_wt_str_0:
  "i < length xs \<Longrightarrow>
   wt_str 0 xs ! i = (if (i mod (112 * 9)) div 9 = 109 then fdiv (xs ! i) (Finite 99) else xs ! i)"
  by (simp add: wt_str_def nth_enumerate_eq)

lemma wt_str_pos: "0 < e \<Longrightarrow> wt_str e xs = xs"
  by (simp add: wt_str_def)

lemma length_rescale_rule50 [simp]: "length (rescale_rule50 xs) = length xs"
  by (simp add: rescale_rule50_def)

lemma nth_rescale_rule50:
  "i < length xs \<Longrightarrow>
   rescale_rule50 xs ! i =
     (if (i mod (112 * 9)) div 9 = 109 then fmul (xs ! i) (Finite 99) else xs ! i)"
  by (simp add: rescale_rule50_def nth_enumerate_eq)

lemma fmul_fdiv_99: "fmul (fdiv x (Finite 99)) (Finite 99) = x"
  by (cases x) simp_all

lemma rescale_wt_str: "rescale_rule50 (wt_str 0 xs) = xs"
  by (rule nth_equalityI) (simp_all add: nth_rescale_rule50 nth_wt_str_0 fmul_fdiv_99)

lemma channel_of_index:
  assumes "ci < 112" "r < 9"
  shows "(((oi * 112 + ci) * 9 + r) mod (112 * 9)) div 9 = (ci::nat)"
proof -
  have "(oi * 112 + ci) * 9 + r = oi * (112 * 9) + (ci * 9 + r)" by simp
  moreover have "ci * 9 + r < 112 * 9" using assms by simp
  ultimately have "((oi * 112 + ci) * 9 + r) mod (112 * 9) = ci * 9 + r"
    by (metis mod_mult_self3 mod_less)
  then show ?thesis using assms by simp
qed

lemma channel_of_kernel_index:
  assumes "ci < 112" "y < 3" "kx < 3"
  shows "((((oi * 112 + ci) * 3 + y) * 3 + kx) mod (112 * 9)) div 9 = (ci::nat)"
proof -
  have eq: "((oi * 112 + ci) * 3 + y) * 3 + kx = (oi * 112 + ci) * 9 + (y * 3 + kx)" by simp
  have "y * 3 + kx < 9" using assms by simp
  with assms(1) show ?thesis unfolding eq by (rule channel_of_index)
qed

lemma endswith_rev: "endswith s suf = (take (length suf) (rev s) = rev suf)"
proof -
  have "take (length suf) (rev s) = rev (drop (length s - length suf) s)"
    by (simp add: take_rev)
  then show ?thesis by (auto simp: endswith_def)
qed

lemma of_char_digit: "d < 10 \<Longrightarrow> (of_char (digit d) :: nat) = 48 + d"
  by (simp add: digit_def)

lemma str_digits: "c \<in> set (str n) \<Longrightarrow> \<exists>d<10. c = digit d"
proof (induction n rule: str.induct)
  case (1 n)
  show ?case
  proof (cases "n < 10")
    case True
    with "1.prems" show ?thesis by (auto simp: str.simps [of n])
  next
    case False
    with "1.prems" have "c \<in> set (str (n div 10)) \<or> c = digit (n mod 10)"
      by (auto simp: str.simps [of n])
    then show ?thesis
    proof
      assume "c \<in> set (str (n div 10))"
      with False "1.IH" show ?thesis by simp
    next
      assume "c = digit (n mod 10)"
      then show ?thesis by (intro exI [of _ "n mod 10"]) simp
    qed
  qed
qed

lemma digit_neq: "d < 10 \<Longrightarrow> digit d \<noteq> CHR ''/'' \<and> digit d \<noteq> CHR ''b''"
proof -
  assume d: "d < 10"
  have "(of_char (digit d) :: nat) \<noteq> of_char CHR ''/''"
    using of_char_digit [OF d] by simp
  moreover have "(of_char (digit d) :: nat) \<noteq> of_char CHR ''b''"
    using of_char_digit [OF d] d by simp
  ultimately show ?thesis by auto
qed

lemma str_no_slash: "CHR ''/'' \<notin> set (str n)"
proof
  assume "CHR ''/'' \<in> set (str n)"
  then obtain d where "d < 10" "CHR ''/'' = digit d" using str_digits by blast
  then show False using digit_neq [of d] by simp
qed

lemma str_no_b: "CHR ''b'' \<notin> set (str n)"
proof
  assume "CHR ''b'' \<in> set (str n)"
  then obtain d where "d < 10" "CHR ''b'' = digit d" using str_digits by blast
  then show False using digit_neq [of d] by simp
qed

lemma replace_skip:
  "c \<noteq> a \<Longrightarrow> replace (c # s) (a # old) new = c # replace s (a # old) new"
  by simp

lemma replace_skip_all:
  "a \<notin> set p \<Longrightarrow> replace (p @ s) (a # old) new = p @ replace s (a # old) new"
proof (induction p)
  case Nil
  then show ?case by simp
next
  case (Cons c p)
  then have "c \<noteq> a" by auto
  then have "replace (c # (p @ s)) (a # old) new = c # replace (p @ s) (a # old) new"
    by (rule replace_skip)
  then show ?case using Cons by simp
qed

section \<open>Normalization layers in the weight list\<close>

lemma replace_beta_tail_gen:
  "replace ''/batch_normalization/beta:0'' ''beta'' new = ''/batch_normalization/'' @ new @ '':0''"
  by simp

lemma replace_bn_gen:
  "replace (''bn'' @ str k @ ''/batch_normalization/beta:0'') ''beta'' new =
     ''bn'' @ str k @ ''/batch_normalization/'' @ new @ '':0''"
proof -
  have "replace (''bn'' @ str k @ ''/batch_normalization/beta:0'') ''beta'' new
        = ''bn'' @ replace (str k @ ''/batch_normalization/beta:0'') ''beta'' new"
    by simp
  also have "replace (str k @ ''/batch_normalization/beta:0'') ''beta'' new
        = str k @ replace ''/batch_normalization/beta:0'' ''beta'' new"
    using str_no_b by (rule replace_skip_all)
  finally show ?thesis by (simp only: replace_beta_tail_gen)
qed

lemma endswith_beta [simp]:
  "endswith (p @ ''/batch_normalization/beta:0'') ''/batch_normalization/beta:0''"
  by (simp add: endswith_def)

lemma not_endswith_beta [simp]:
  "\<not> endswith (p @ ''/conv_weight:0'') ''/batch_normalization/beta:0''"
  "\<not> endswith (p @ ''/batch_normalization/moving_mean:0'') ''/batch_normalization/beta:0''"
  "\<not> endswith (p @ ''/batch_normalization/moving_variance:0'') ''/batch_normalization/beta:0''"
  "\<not> endswith (p @ ''/weight:0'') ''/batch_normalization/beta:0''"
  "\<not> endswith (p @ ''/bias:0'') ''/batch_normalization/beta:0''"
  by (simp_all add: endswith_rev)

lemma replace_bn_Cons [simp]:
  "replace (CHR ''b'' # CHR ''n'' # str k @ ''/batch_normalization/beta:0'') ''beta'' new =
     CHR ''b'' # CHR ''n'' # str k @ ''/batch_normalization/'' @ new @ '':0''"
  using replace_bn_gen [of k new] by simp

lemma is_beta_conv_block [simp]:
  "is_beta \<lparr>name = CHR ''b'' # CHR ''n'' # str k @ ''/batch_normalization/beta:0'', shape = sh\<rparr>"
  "\<not> is_beta \<lparr>name = CHR ''b'' # CHR ''n'' # str k @ ''/conv_weight:0'', shape = sh\<rparr>"
  "\<not> is_beta \<lparr>name = CHR ''b'' # CHR ''n'' # str k @ ''/batch_normalization/moving_mean:0'',
      shape = sh\<rparr>"
  "\<not> is_beta \<lparr>name = CHR ''b'' # CHR ''n'' # str k @ ''/batch_normalization/moving_variance:0'',
      shape = sh\<rparr>"
  using endswith_beta [of "''bn'' @ str k"] not_endswith_beta [of "''bn'' @ str k"]
  by (simp_all add: is_beta_def)

lemma is_beta_head [simp]:
  "\<not> is_beta \<lparr>name = key @ ''/weight:0'', shape = sh\<rparr>"
  "\<not> is_beta \<lparr>name = key @ ''/bias:0'', shape = sh\<rparr>"
  by (simp_all add: is_beta_def)

lemma bn_layers_append:
  assumes "bn_layers xs" "bn_layers ys" "xs \<noteq> []"
  shows "bn_layers (xs @ ys)"
  unfolding bn_layers_def
proof (intro allI impI)
  fix e
  assume e: "e < length (xs @ ys)" and b: "is_beta ((xs @ ys) ! e)"
  show "bn_layer_at (xs @ ys) e"
  proof (cases "e < length xs")
    case True
    with b assms(1) have "bn_layer_at xs e" by (simp add: bn_layers_def nth_append)
    then show ?thesis using True by (simp add: bn_layer_at_def nth_append)
  next
    case False
    define e' where "e' = e - length xs"
    have e': "e = length xs + e'" "e' < length ys" using False e by (simp_all add: e'_def)
    with b assms(2) have "bn_layer_at ys e'" by (simp add: bn_layers_def nth_append)
    then show ?thesis using assms(3) unfolding e'(1)
      by (simp add: bn_layer_at_def nth_append add.assoc)
  qed
qed

lemma bn_layers_Nil [simp]: "bn_layers []"
  by (simp add: bn_layers_def)

lemma bn_layers_append':
  assumes "bn_layers xs" "bn_layers ys"
  shows "bn_layers (xs @ ys)"
  using assms bn_layers_append [of xs ys] by (cases "xs = []") simp_all

lemma length_conv_block_weights [simp]: "length (conv_block_weights k fs ic oc) = 4"
  by (simp add: conv_block_weights_def)

lemma bn_layers_conv_block: "bn_layers (conv_block_weights k fs ic oc)"
  unfolding bn_layers_def
proof (intro allI impI)
  fix e
  assume e: "e < length (conv_block_weights k fs ic oc)"
    and b: "is_beta (conv_block_weights k fs ic oc ! e)"
  have l: "bn_layer_at (conv_block_weights k fs ic oc) 1"
    by (simp add: bn_layer_at_def conv_block_weights_def eval_nat_numeral del: replace.simps)
  from e have "e = 0 \<or> e = 1 \<or> e = 2 \<or> e = 3" by auto
  then have "e = 1"
    using b by (auto simp: conv_block_weights_def eval_nat_numeral)
  then show "bn_layer_at (conv_block_weights k fs ic oc) e" using l by simp
qed

lemma bn_layers_head: "bn_layers (head_weights key n m)"
  by (auto simp: bn_layers_def head_weights_def nth_Cons' )

lemma bn_layers_tower: "bn_layers (tower_weights c k f)"
  by (induction k arbitrary: c) (simp_all add: bn_layers_append' bn_layers_conv_block)

lemma bn_layers_net: "bn_layers (net_weights c f b)"
  by (simp add: net_weights_def bn_layers_append' bn_layers_conv_block bn_layers_head
      bn_layers_tower)

lemma net_weights_first:
  "net_weights c f b ! 0 = \<lparr>name = ''bn'' @ str c @ ''/conv_weight:0'', shape = [3, 3, 112, f]\<rparr>"
  by (simp add: net_weights_def conv_block_weights_def)

section \<open>Export: results\<close>



lemma length_fold_bias [simp]: "length (fold_bias x var) = min (length x) (length var)"
  by (simp add: fold_bias_def)

lemma work_weights_beta:
  assumes "is_beta w" "sess (name w) = Some x"
    "sess (replace (name w) ''beta'' ''moving_variance'') = Some var"
  shows "work_weights sess w = Inr (fold_bias x var)"
  using assms by (simp add: work_weights_def is_beta_def fold_bias_def)

lemma work_weights_conv:
  assumes "\<not> is_beta w" "length (shape w) = 4" "sess (name w) = Some x"
  shows "work_weights sess w = Inr (tf_transpose x (shape w) [3, 2, 0, 1])"
  using assms by (simp add: work_weights_def is_beta_def)

lemma work_weights_dense:
  assumes "\<not> is_beta w" "length (shape w) = 2" "sess (name w) = Some x"
  shows "work_weights sess w = Inr (tf_transpose x (shape w) [1, 0])"
  using assms by (simp add: work_weights_def is_beta_def)


lemma save_lines_nth:
  assumes "save_lines e ws sess = Inr ls"
  shows "length ls = length ws \<and>
         (\<forall>i<length ws. \<exists>l. work_weights sess (ws ! i) = Inr l \<and> ls ! i = wt_str (e + i) l)"
  using assms
proof (induction ws arbitrary: e ls)
  case Nil
  then show ?case by simp
next
  case (Cons w ws)
  from Cons.prems obtain l rest where l: "work_weights sess w = Inr l"
    and rest: "save_lines (Suc e) ws sess = Inr rest" and ls: "ls = wt_str e l # rest"
    by (auto split: sum.splits)
  from Cons.IH [OF rest] have len: "length rest = length ws"
    and nth: "\<And>i. i < length ws \<Longrightarrow>
                \<exists>l. work_weights sess (ws ! i) = Inr l \<and> rest ! i = wt_str (Suc e + i) l"
    by simp_all
  show ?case
  proof (intro conjI allI impI)
    show "length ls = length (w # ws)" using len ls by simp
  next
    fix i
    assume i: "i < length (w # ws)"
    show "\<exists>l. work_weights sess ((w # ws) ! i) = Inr l \<and> ls ! i = wt_str (e + i) l"
    proof (cases i)
      case 0
      then show ?thesis using l ls by simp
    next
      case (Suc j)
      then show ?thesis using nth [of j] i ls by simp
    qed
  qed
qed

lemma save_lines_ok:
  assumes "\<forall>w\<in>set ws. \<exists>l. work_weights sess w = Inr l"
  shows "\<exists>ls. save_lines e ws sess = Inr ls"
  using assms
proof (induction ws arbitrary: e)
  case Nil
  then show ?case by simp
next
  case (Cons w ws)
  then obtain l where l: "work_weights sess w = Inr l" by auto
  from Cons obtain rest where "save_lines (Suc e) ws sess = Inr rest" by fastforce
  with l show ?case by simp
qed

lemma work_weights_ok:
  assumes "bn_layers ws" "well_shaped ws sess" "w \<in> set ws"
  shows "\<exists>l. work_weights sess w = Inr l"
proof -
  from assms(2,3) obtain x where x: "sess (name w) = Some x" by (auto simp: well_shaped_def)
  show ?thesis
  proof (cases "is_beta w")
    case True
    from assms(3) obtain e where e: "e < length ws" "w = ws ! e" by (auto simp: in_set_conv_nth)
    with True assms(1) have l: "bn_layer_at ws e" by (simp add: bn_layers_def)
    then have "ws ! (e + 2) \<in> set ws" by (simp add: bn_layer_at_def)
    with assms(2) obtain var where "sess (name (ws ! (e + 2))) = Some var"
      by (auto simp: well_shaped_def)
    with l e have "sess (replace (name w) ''beta'' ''moving_variance'') = Some var"
      by (simp add: bn_layer_at_def)
    with True x show ?thesis by (auto simp: work_weights_beta)
  next
    case False
    with x show ?thesis by (auto simp: work_weights_def is_beta_def)
  qed
qed

lemma save_leelaz_weights_ok:
  assumes "bn_layers (weights p)" "well_shaped (weights p) sess"
  shows "\<exists>ls. save_leelaz_weights p sess = Inr \<lparr>version = 2, lines = ls\<rparr>"
proof -
  have "\<forall>w\<in>set (weights p). \<exists>l. work_weights sess w = Inr l"
    using assms work_weights_ok by blast
  then obtain ls where "save_lines 0 (weights p) sess = Inr ls"
    using save_lines_ok by blast
  then show ?thesis by (simp add: save_leelaz_weights_def VERSION_def)
qed

lemma save_leelaz_weights_lines:
  assumes "save_leelaz_weights p sess = Inr f"
  shows "save_lines 0 (weights p) sess = Inr (lines f) \<and> version f = 2"
  using assms by (auto simp: save_leelaz_weights_def VERSION_def split: sum.splits)

section \<open>Import: single steps\<close>

lemma tf_constant_exact: "length v = prod_list sh \<Longrightarrow> tf_constant v sh = Inr v"
  by (auto simp: tf_constant_def Let_def)

lemma getitem_nth [simp]: "e < length xs \<Longrightarrow> getitem xs e = Inr (xs ! e)"
  by (simp add: getitem_def)

lemma getitem_out [simp]: "length xs \<le> e \<Longrightarrow> getitem xs e = Inl IndexError"
  by (simp add: getitem_def)




lemma replace_step_conv:
  assumes "\<not> is_beta w" "shape w = [h, wd, ic, oc]" "0 < e" "e < length nw"
    "length (nw ! e) = oc * ic * h * wd"
  shows "replace_step e w s nw =
           (None, s(name w \<mapsto> tf_transpose (nw ! e) [oc, ic, h, wd] [2, 3, 1, 0]), nw)"
  using assms
  by (simp add: replace_step_def is_beta_def tf_constant_exact mult.assoc)

lemma replace_step_conv_0:
  assumes "\<not> is_beta w" "shape w = [h, wd, ic, oc]" "nw \<noteq> []"
    "length (nw ! 0) = oc * ic * h * wd"
  shows "replace_step 0 w s nw =
           (None, s(name w \<mapsto> tf_transpose (rescale_rule50 (nw ! 0)) [oc, ic, h, wd] [2, 3, 1, 0]),
            nw[0 := rescale_rule50 (nw ! 0)])"
  using assms
  by (simp add: replace_step_def is_beta_def tf_constant_exact mult.assoc)

lemma replace_step_dense:
  assumes "\<not> is_beta w" "shape w = [n, m]" "e < length nw" "length (nw ! e) = m * n"
  shows "replace_step e w s nw =
           (None, s(name w \<mapsto> tf_transpose (nw ! e) [m, n] [1, 0]), nw)"
  using assms
  by (simp add: replace_step_def is_beta_def tf_constant_exact)


lemma replace_step_short:
  assumes "length nw \<le> e"
  shows "replace_step e w s nw = (Some IndexError, s, nw)"
  using assms by (cases "e = 0") (simp_all add: replace_step_def)

lemma replace_step_new_weights:
  assumes "0 < e"
  shows "snd (snd (replace_step e w s nw)) = nw"
  using assms
  by (simp add: replace_step_def Let_def split: sum.splits)


section \<open>Round trip of one slot\<close>

lemma replace_loop_new_weights:
  "0 < e \<Longrightarrow> snd (snd (replace_loop e ws s nw)) = nw"
proof (induction ws arbitrary: e s)
  case Nil
  then show ?case by simp
next
  case (Cons w ws)
  obtain err s' nw' where st: "replace_step e w s nw = (err, s', nw')"
    by (cases "replace_step e w s nw") auto
  then have "nw' = nw" using replace_step_new_weights [OF Cons.prems, of w s nw] by simp
  then show ?case using st Cons.IH [of "Suc e" s'] by (cases err) simp_all
qed


lemma replace_loop_append:
  "replace_loop e (xs @ ys) s nw =
     (case replace_loop e xs s nw of
        (Some err, s', nw') \<Rightarrow> (Some err, s', nw')
      | (None, s', nw') \<Rightarrow> replace_loop (e + length xs) ys s' nw')"
proof (induction xs arbitrary: e s nw)
  case Nil
  then show ?case by simp
next
  case (Cons w xs)
  obtain err s' nw' where st: "replace_step e w s nw = (err, s', nw')"
    by (cases "replace_step e w s nw") auto
  obtain err2 s2 nw2 where l: "replace_loop (Suc e) xs s' nw' = (err2, s2, nw2)"
    by (cases "replace_loop (Suc e) xs s' nw'") auto
  show ?case using st l Cons.IH [of "Suc e" s' nw'] by (cases err; cases err2) simp_all
qed



section \<open>Round trip of the whole list\<close>



section \<open>Tensor names are pairwise different\<close>

lemma of_char_digit': "d < 10 \<Longrightarrow> (of_char (digit d) :: nat) = 48 + d"
  by (simp add: digit_def)

lemma digit_inj: "d < 10 \<Longrightarrow> d' < 10 \<Longrightarrow> digit d = digit d' \<Longrightarrow> d = d'"
  by (metis of_char_digit' add_left_cancel)

lemma str_nonempty: "str n \<noteq> []"
  by (subst str.simps) simp

lemma length_str_ge2: "10 \<le> n \<Longrightarrow> 2 \<le> length (str n)"
  using str_nonempty [of "n div 10"]
  by (subst str.simps) (cases "str (n div 10)"; simp)

lemma str_inj: "str n = str m \<Longrightarrow> n = m"
proof (induction n arbitrary: m rule: str.induct)
  case (1 n)
  show ?case
  proof (cases "n < 10")
    case n: True
    show ?thesis
    proof (cases "m < 10")
      case True
      with n "1.prems" show ?thesis
        by (simp add: str.simps [of n] str.simps [of m] digit_inj)
    next
      case False
      then have "2 \<le> length (str m)" by (intro length_str_ge2) simp
      moreover have "length (str n) = 1" using n by (simp add: str.simps [of n])
      ultimately show ?thesis using "1.prems" by simp
    qed
  next
    case n: False
    show ?thesis
    proof (cases "m < 10")
      case True
      have "2 \<le> length (str n)" using n by (intro length_str_ge2) simp
      moreover have "length (str m) = 1" using True by (simp add: str.simps [of m])
      ultimately show ?thesis using "1.prems" by simp
    next
      case False
      from n False "1.prems"
      have eq: "str (n div 10) @ [digit (n mod 10)] = str (m div 10) @ [digit (m mod 10)]"
        by (simp add: str.simps [of n] str.simps [of m])
      then have "str (n div 10) = str (m div 10)" and "digit (n mod 10) = digit (m mod 10)"
        by simp_all
      then have "n div 10 = m div 10" and "n mod 10 = m mod 10"
        using "1.IH" [of "m div 10"] n by (simp_all add: digit_inj)
      then show ?thesis by (metis div_mult_mod_eq)
    qed
  qed
qed

lemma split_at_first:
  "x \<notin> set xs \<Longrightarrow> x \<notin> set xs' \<Longrightarrow> xs @ x # ys = xs' @ x # ys' \<Longrightarrow>
   xs = xs' \<and> ys = ys'"
proof (induction xs arbitrary: xs')
  case Nil
  then show ?case by (cases xs') auto
next
  case (Cons a xs)
  then show ?case by (cases xs') auto
qed

lemma bn_key_inj:
  assumes "''bn'' @ str k @ CHR ''/'' # t = ''bn'' @ str k' @ CHR ''/'' # t'"
  shows "k = k' \<and> t = t'"
proof -
  from assms have "str k @ CHR ''/'' # t = str k' @ CHR ''/'' # t'" by simp
  then have "str k = str k' \<and> t = t'"
    by (rule split_at_first [OF str_no_slash str_no_slash])
  then show ?thesis by (auto dest: str_inj)
qed

lemma bn_name_disjoint:
  assumes "bn_name lo hi n" "bn_name lo' hi' n" "hi \<le> lo'"
  shows False
proof -
  from assms(1) obtain k t where k: "lo \<le> k" "k < hi" "n = ''bn'' @ str k @ CHR ''/'' # t"
    by (auto simp: bn_name_def)
  from assms(2) obtain k' t' where k': "lo' \<le> k'" "k' < hi'" "n = ''bn'' @ str k' @ CHR ''/'' # t'"
    by (auto simp: bn_name_def)
  from k(3) k'(3) have "k = k'" using bn_key_inj by blast
  with k(2) k'(1) assms(3) show False by simp
qed

lemma bn_name_mono:
  assumes "bn_name lo hi n" "lo' \<le> lo" "hi \<le> hi'"
  shows "bn_name lo' hi' n"
proof -
  from assms(1) obtain k t where "lo \<le> k" "k < hi" "n = ''bn'' @ str k @ CHR ''/'' # t"
    unfolding bn_name_def by blast
  with assms(2,3) have "lo' \<le> k \<and> k < hi' \<and> n = ''bn'' @ str k @ CHR ''/'' # t" by simp
  then show ?thesis unfolding bn_name_def by blast
qed

lemma bn_name_conv_block:
  assumes "w \<in> set (conv_block_weights k fs ic oc)"
  shows "bn_name k (Suc k) (name w)"
proof -
  have "\<exists>t. name w = ''bn'' @ str k @ CHR ''/'' # t"
    using assms by (auto simp: conv_block_weights_def)
  then show ?thesis by (auto simp: bn_name_def)
qed

lemma bn_name_tower:
  "w \<in> set (tower_weights c n f) \<Longrightarrow> bn_name c (c + 2 * n) (name w)"
proof (induction n arbitrary: c)
  case 0
  then show ?case by simp
next
  case (Suc n)
  from Suc.prems consider "w \<in> set (conv_block_weights c 3 f f)"
    | "w \<in> set (conv_block_weights (Suc c) 3 f f)" | "w \<in> set (tower_weights (c + 2) n f)"
    by auto
  then show ?case
  proof cases
    case 1
    then show ?thesis by (rule bn_name_mono [OF bn_name_conv_block]) simp_all
  next
    case 2
    then show ?thesis by (rule bn_name_mono [OF bn_name_conv_block]) simp_all
  next
    case 3
    then show ?thesis by (rule bn_name_mono [OF Suc.IH]) simp_all
  qed
qed

lemma not_bn_name_head:
  assumes "w \<in> set (head_weights (CHR ''f'' # key) n m)"
  shows "\<not> bn_name lo hi (name w)"
  using assms by (auto simp: head_weights_def bn_name_def)

lemma distinct_conv_block: "distinct (map name (conv_block_weights k fs ic oc))"
  by (simp add: conv_block_weights_def)

lemma distinct_head: "distinct (map name (head_weights key n m))"
  by (simp add: head_weights_def)

lemma distinct_tower: "distinct (map name (tower_weights c n f))"
proof (induction n arbitrary: c)
  case 0
  then show ?case by simp
next
  case (Suc n)
  have a: "name x \<noteq> name y"
    if "x \<in> set (conv_block_weights c 3 f f)" "y \<in> set (conv_block_weights (Suc c) 3 f f)" for x y
    using bn_name_disjoint [OF bn_name_conv_block [OF that(1)], of "Suc c" "Suc (Suc c)"]
      bn_name_conv_block [OF that(2)] by auto
  have b: "name x \<noteq> name y"
    if "x \<in> set (conv_block_weights c 3 f f)" "y \<in> set (tower_weights (c + 2) n f)" for x y
    using bn_name_disjoint [OF bn_name_conv_block [OF that(1)], of "c + 2" "c + 2 + 2 * n"]
      bn_name_tower [OF that(2)] by auto
  have c: "name x \<noteq> name y"
    if "x \<in> set (conv_block_weights (Suc c) 3 f f)" "y \<in> set (tower_weights (c + 2) n f)" for x y
    using bn_name_disjoint [OF bn_name_conv_block [OF that(1)], of "c + 2" "c + 2 + 2 * n"]
      bn_name_tower [OF that(2)] by auto
  show ?case
    using Suc.IH [of "c + 2"] a b c
    by (auto simp: distinct_conv_block)
qed

lemma names_disjoint_bn:
  assumes "\<And>x. x \<in> set xs \<Longrightarrow> bn_name lo hi (name x)"
    and "\<And>y. y \<in> set ys \<Longrightarrow> bn_name lo' hi' (name y)" and "hi \<le> lo'"
  shows "name ` set xs \<inter> name ` set ys = {}"
proof -
  have "name x \<noteq> name y" if "x \<in> set xs" "y \<in> set ys" for x y
    using bn_name_disjoint [OF assms(1) [OF that(1)] _ assms(3), of hi' ] assms(2) [OF that(2)]
    by auto
  then show ?thesis by auto
qed

lemma names_disjoint_head:
  assumes "\<And>x. x \<in> set xs \<Longrightarrow> bn_name lo hi (name x)"
  shows "name ` set xs \<inter> name ` set (head_weights (CHR ''f'' # key) n m) = {}"
    and "name ` set (head_weights (CHR ''f'' # key) n m) \<inter> name ` set xs = {}"
proof -
  have "name x \<noteq> name y" if "x \<in> set xs" "y \<in> set (head_weights (CHR ''f'' # key) n m)" for x y
    using assms [OF that(1)] not_bn_name_head [OF that(2), of lo hi] by auto
  then have "name ` set xs \<inter> name ` set (head_weights (CHR ''f'' # key) n m) = {}"
    by auto
  then show "name ` set xs \<inter> name ` set (head_weights (CHR ''f'' # key) n m) = {}"
    and "name ` set (head_weights (CHR ''f'' # key) n m) \<inter> name ` set xs = {}"
    by (simp_all add: Int_commute)
qed

lemma distinct_net: "distinct (map name (net_weights c f b))"
proof -
  let ?A = "conv_block_weights c 3 112 f"
  let ?T = "tower_weights (c + 1) b f"
  let ?P = "conv_block_weights (c + 1 + 2 * b) 1 f 32"
  let ?V = "conv_block_weights (c + 2 + 2 * b) 1 f 32"
  have bnA: "bn_name c (c + 1) (name x)" if "x \<in> set ?A" for x
    using bn_name_conv_block [OF that] by simp
  have bnT: "bn_name (c + 1) (c + 1 + 2 * b) (name x)" if "x \<in> set ?T" for x
    using bn_name_tower [OF that] by simp
  have bnP: "bn_name (c + 1 + 2 * b) (c + 2 + 2 * b) (name x)" if "x \<in> set ?P" for x
    using bn_name_conv_block [OF that] by simp
  have bnV: "bn_name (c + 2 + 2 * b) (Suc (c + 2 + 2 * b)) (name x)" if "x \<in> set ?V" for x
    using that by (rule bn_name_conv_block)
  have AT: "name ` set ?A \<inter> name ` set ?T = {}"
    using bnA bnT by (rule names_disjoint_bn) simp_all
  have AP: "name ` set ?A \<inter> name ` set ?P = {}"
    using bnA bnP by (rule names_disjoint_bn) simp_all
  have AV: "name ` set ?A \<inter> name ` set ?V = {}"
    using bnA bnV by (rule names_disjoint_bn) simp_all
  have TP: "name ` set ?T \<inter> name ` set ?P = {}"
    using bnT bnP by (rule names_disjoint_bn) simp_all
  have TV: "name ` set ?T \<inter> name ` set ?V = {}"
    using bnT bnV by (rule names_disjoint_bn) simp_all
  have PV: "name ` set ?P \<inter> name ` set ?V = {}"
    using bnP bnV by (rule names_disjoint_bn) simp_all
  have HH: "name ` set (head_weights ''fc1'' 2048 1858) \<inter> name ` set (head_weights ''fc2'' 2048 128) = {}"
    "name ` set (head_weights ''fc1'' 2048 1858) \<inter> name ` set (head_weights ''fc3'' 128 1) = {}"
    "name ` set (head_weights ''fc2'' 2048 128) \<inter> name ` set (head_weights ''fc3'' 128 1) = {}"
    by (simp_all add: head_weights_def)
  note HA = names_disjoint_head [of ?A, OF bnA]
  note HT = names_disjoint_head [of ?T, OF bnT]
  note HP = names_disjoint_head [of ?P, OF bnP]
  note HV = names_disjoint_head [of ?V, OF bnV]
  show ?thesis
    unfolding net_weights_def
    by (simp only: map_append distinct_append set_map set_append image_Un Int_Un_distrib
        Int_Un_distrib2 Un_empty distinct_conv_block distinct_tower distinct_head
        AT AP AV TP TV PV HH HA HT HP HV simp_thms)
qed

section \<open>Layout conversion\<close>

lemma length_ramp [simp]: "length (ramp n) = n"
  by (simp add: ramp_def)

lemma nth_ramp [simp]: "i < n \<Longrightarrow> ramp n ! i = Finite (real i)"
  by (simp add: ramp_def)

lemma replace_step_conv_any:
  assumes nb: "\<not> is_beta w" and sh: "shape w = [h, wd, ic, oc]"
    and x: "sess (name w) = Some x" "length x = prod_list (shape w)"
    and e: "e < length nw"
    and t: "work_weights sess w = Inr t" and line: "nw ! e = wt_str e t"
  shows "replace_step e w s nw = (None, s(name w \<mapsto> x), nw[e := t])"
proof -
  have t_eq: "t = tf_transpose x [h, wd, ic, oc] [3, 2, 0, 1]"
    using t work_weights_conv [of w sess x] nb x(1) sh by simp
  have xl: "length x = h * wd * ic * oc" using x(2) sh by (simp add: mult.assoc)
  have tl: "length t = oc * ic * h * wd" by (simp add: t_eq transpose_shape_def mult.assoc)
  have rt: "tf_transpose t [oc, ic, h, wd] [2, 3, 1, 0] = x"
    unfolding t_eq by (rule conv_roundtrip [OF xl])
  show ?thesis
  proof (cases "e = 0")
    case True
    have ne: "nw \<noteq> []" using e by auto
    have l0: "length (nw ! 0) = oc * ic * h * wd" using line True tl by simp
    have "replace_step 0 w s nw =
            (None, s(name w \<mapsto> tf_transpose (rescale_rule50 (nw ! 0)) [oc, ic, h, wd] [2, 3, 1, 0]),
             nw[0 := rescale_rule50 (nw ! 0)])"
      using nb sh ne l0 by (rule replace_step_conv_0)
    moreover have "rescale_rule50 (nw ! 0) = t"
      using line True by (simp add: rescale_wt_str)
    ultimately show ?thesis using True by (simp only: rt)
  next
    case False
    then have pos: "0 < e" by simp
    have le: "nw ! e = t" using line pos by (simp add: wt_str_pos)
    have "replace_step e w s nw =
            (None, s(name w \<mapsto> tf_transpose (nw ! e) [oc, ic, h, wd] [2, 3, 1, 0]), nw)"
      using nb sh pos e by (rule replace_step_conv) (simp add: le tl)
    moreover have "nw[e := t] = nw" using le by (metis list_update_id)
    ultimately show ?thesis by (simp only: le rt)
  qed
qed

lemma replace_step_dense_any:
  assumes nb: "\<not> is_beta w" and sh: "shape w = [n, m]"
    and x: "sess (name w) = Some x" "length x = prod_list (shape w)"
    and e: "0 < e" "e < length nw"
    and t: "work_weights sess w = Inr t" and line: "nw ! e = wt_str e t"
  shows "replace_step e w s nw = (None, s(name w \<mapsto> x), nw[e := t])"
proof -
  have t_eq: "t = tf_transpose x [n, m] [1, 0]"
    using t work_weights_dense [of w sess x] nb x(1) sh by simp
  have xl: "length x = n * m" using x(2) sh by simp
  have tl: "length t = m * n" by (simp add: t_eq transpose_shape_def)
  have rt: "tf_transpose t [m, n] [1, 0] = x"
    unfolding t_eq by (rule dense_roundtrip [OF xl])
  have le: "nw ! e = t" using line e(1) by (simp add: wt_str_pos)
  have "replace_step e w s nw =
          (None, s(name w \<mapsto> tf_transpose (nw ! e) [m, n] [1, 0]), nw)"
    using nb sh e(2) by (rule replace_step_dense) (simp add: le tl)
  moreover have "nw[e := t] = nw" using le by (metis list_update_id)
  ultimately show ?thesis by (simp only: le rt)
qed

text \<open>
  \<^bold>\<open>C8.\<close> Let \<open>w\<close> be a convolution kernel (native shape \<open>[h, wd, ic, oc]\<close>, any
  slot) or a dense kernel (native shape \<open>[n, m]\<close>, any slot but the first, which
  \<open>construct_net\<close> always gives to a convolution kernel), let \<open>x\<close> be its value and \<open>t\<close>
  the array the exporter builds for it, written at line \<open>e\<close>. The array is in
  exchange layout element by element: \<open>t[oi, ci, y, kx] = x[y, kx, ci, oi]\<close> for a
  convolution kernel and \<open>t[j, i] = x[i, j]\<close> for a dense kernel, in row-major flat
  positions. The iteration of the importer for slot \<open>e\<close> then assigns to \<open>w\<close> exactly
  \<open>x\<close>: export-direction followed by import-direction conversion puts every element
  back in its place.
\<close>

theorem layout_conversion_roundtrip:
  assumes "\<not> endswith (name w) ''/batch_normalization/beta:0''"
    and "shape w = [h, wd, ic, oc] \<or> (shape w = [n, m] \<and> 0 < e)"
    and "sess (name w) = Some x" and "length x = prod_list (shape w)"
    and "e < length new_weights"
    and "work_weights sess w = Inr t" and "new_weights ! e = wt_str e t"
  shows "replace_step e w s new_weights = (None, s(name w \<mapsto> x), new_weights[e := t]) \<and>
         (shape w = [h, wd, ic, oc] \<longrightarrow>
            (\<forall>oi<oc. \<forall>ci<ic. \<forall>y<h. \<forall>kx<wd.
               t ! (((oi * ic + ci) * h + y) * wd + kx) = x ! (((y * wd + kx) * ic + ci) * oc + oi))) \<and>
         (shape w = [n, m] \<longrightarrow>
            (\<forall>i<n. \<forall>j<m. t ! (j * n + i) = x ! (i * m + j)))"
proof (intro conjI impI allI)
  have nb: "\<not> is_beta w" using assms(1) by (simp add: is_beta_def)
  show "replace_step e w s new_weights = (None, s(name w \<mapsto> x), new_weights[e := t])"
    using assms(2)
  proof
    assume "shape w = [h, wd, ic, oc]"
    with nb show ?thesis using assms(3-7) by (rule replace_step_conv_any)
  next
    assume "shape w = [n, m] \<and> 0 < e"
    then show ?thesis using nb assms(3-7) replace_step_dense_any [of w n m sess x e new_weights t s]
      by simp
  qed
  {
    fix oi ci y kx
    assume sh: "shape w = [h, wd, ic, oc]" and b: "oi < oc" "ci < ic" "y < h" "kx < wd"
    have "t = tf_transpose x [h, wd, ic, oc] [3, 2, 0, 1]"
      using assms(6) work_weights_conv [of w sess x] nb assms(3) sh by simp
    then show "t ! (((oi * ic + ci) * h + y) * wd + kx) = x ! (((y * wd + kx) * ic + ci) * oc + oi)"
      using nth_export_conv [OF b] by simp
  }
  {
    fix i j
    assume sh: "shape w = [n, m]" and b: "i < n" "j < m"
    have "t = tf_transpose x [n, m] [1, 0]"
      using assms(6) work_weights_dense [of w sess x] nb assms(3) sh by simp
    then show "t ! (j * n + i) = x ! (i * m + j)"
      using nth_dense [OF b] by simp
  }
qed

theorem layout_conversion_roundtrip_witness:
  "replace_step 4 \<lparr>name = ''bn1/conv_weight:0'', shape = [1, 1, 1, 32]\<rparr> Map.empty
     [[], [], [], [], tf_transpose (ramp 32) [1, 1, 1, 32] [3, 2, 0, 1]] =
     (None, [''bn1/conv_weight:0'' \<mapsto> ramp 32],
      [[], [], [], [], tf_transpose (ramp 32) [1, 1, 1, 32] [3, 2, 0, 1]]) \<and>
   tf_transpose (ramp 32) [1, 1, 1, 32] [3, 2, 0, 1] ! 5 = Finite 5 \<and>
   replace_step 1 \<lparr>name = ''fc3/weight:0'', shape = [128, 1]\<rparr> Map.empty
     [[], tf_transpose (ramp 128) [128, 1] [1, 0]] =
     (None, [''fc3/weight:0'' \<mapsto> ramp 128], [[], tf_transpose (ramp 128) [128, 1] [1, 0]]) \<and>
   tf_transpose (ramp 128) [128, 1] [1, 0] ! 7 = Finite 7"
proof -
  let ?w = "\<lparr>name = ''bn1/conv_weight:0'', shape = [1, 1, 1, 32]\<rparr>"
  let ?t = "tf_transpose (ramp 32) [1, 1, 1, 32] [3, 2, 0, 1]"
  let ?d = "\<lparr>name = ''fc3/weight:0'', shape = [128, 1]\<rparr>"
  let ?u = "tf_transpose (ramp 128) [128, 1] [1, 0]"
  have nbw: "\<not> endswith (name ?w) ''/batch_normalization/beta:0''"
    by (simp add: endswith_def)
  have nbd: "\<not> endswith (name ?d) ''/batch_normalization/beta:0''"
    by (simp add: endswith_def)
  have ww: "work_weights [''bn1/conv_weight:0'' \<mapsto> ramp 32] ?w = Inr ?t"
    using nbw by (simp add: work_weights_def)
  have wd: "work_weights [''fc3/weight:0'' \<mapsto> ramp 128] ?d = Inr ?u"
    using nbd by (simp add: work_weights_def)
  have a: "replace_step 4 ?w Map.empty [[], [], [], [], ?t] =
             (None, [''bn1/conv_weight:0'' \<mapsto> ramp 32], [[], [], [], [], ?t]) \<and>
           (\<forall>oi<32. \<forall>ci<1. \<forall>y<1. \<forall>kx<1.
               ?t ! (((oi * 1 + ci) * 1 + y) * 1 + kx) = ramp 32 ! (((y * 1 + kx) * 1 + ci) * 32 + oi))"
    using layout_conversion_roundtrip [of ?w 1 1 1 32 0 0 4
        "[''bn1/conv_weight:0'' \<mapsto> ramp 32]" "ramp 32" "[[], [], [], [], ?t]" ?t Map.empty]
      nbw ww
    by (simp add: wt_str_pos)
  have b: "replace_step 1 ?d Map.empty [[], ?u] =
             (None, [''fc3/weight:0'' \<mapsto> ramp 128], [[], ?u]) \<and>
           (\<forall>i<128. \<forall>j<1. ?u ! (j * 128 + i) = ramp 128 ! (i * 1 + j))"
    using layout_conversion_roundtrip [of ?d 0 0 0 0 128 1 1
        "[''fc3/weight:0'' \<mapsto> ramp 128]" "ramp 128" "[[], ?u]" ?u Map.empty]
      nbd wd
    by (simp add: wt_str_pos)
  from a have "?t ! 5 = Finite 5" by simp
  moreover from b have "?u ! 7 = Finite 7" by simp
  ultimately show ?thesis using a b by simp
qed

section \<open>The rule-50 rescaling\<close>

lemma length_full [simp]: "length (full sh v) = prod_list sh"
  by (simp add: full_def)

lemma nth_full [simp]: "i < prod_list sh \<Longrightarrow> full sh v ! i = v"
  by (simp add: full_def)

lemma full_single [simp]: "full [Suc 0] v = [v]"
  by (simp add: full_def)


lemma uniform_session_at:
  assumes "distinct (map name ws)" "w \<in> set ws"
  shows "uniform_session ws v (name w) = Some (full (shape w) v)"
proof -
  have "distinct (map fst (map (\<lambda>w. (name w, full (shape w) v)) ws))"
    using assms(1) by (simp add: comp_def)
  moreover have "(name w, full (shape w) v) \<in> set (map (\<lambda>w. (name w, full (shape w) v)) ws)"
    using assms(2) by auto
  ultimately show ?thesis unfolding uniform_session_def by (rule map_of_is_SomeI)
qed

lemma well_shaped_uniform:
  "distinct (map name ws) \<Longrightarrow> well_shaped ws (uniform_session ws v)"
  by (simp add: well_shaped_def uniform_session_at)


lemma replace_step_0_new_weights:
  assumes "\<not> is_beta w" "length (shape w) = 4" "nw \<noteq> []"
  shows "snd (snd (replace_step 0 w s nw)) = nw[0 := rescale_rule50 (nw ! 0)]"
proof -
  have g: "getitem nw 0 = Inr (nw ! 0)" using assms(3) by (simp add: getitem_def)
  have g': "getitem (nw[0 := rescale_rule50 (nw ! 0)]) 0 = Inr (rescale_rule50 (nw ! 0))"
    using assms(3) by (simp add: getitem_def)
  show ?thesis
    using assms(1,2)
    by (simp add: replace_step_def is_beta_def g g' Let_def split: sum.splits)
qed

lemma replace_loop_0_new_weights:
  assumes "first_is_conv ws" "ws \<noteq> []" "nw \<noteq> []"
  shows "snd (snd (replace_loop 0 ws s nw)) = nw[0 := rescale_rule50 (nw ! 0)]"
proof -
  obtain w ws' where ws: "ws = w # ws'" using assms(2) by (cases ws) auto
  have c: "\<not> is_beta w" "length (shape w) = 4"
    using assms(1) ws by (simp_all add: first_is_conv_def)
  obtain err s' nw' where st: "replace_step 0 w s nw = (err, s', nw')"
    by (cases "replace_step 0 w s nw") auto
  have nw': "nw' = nw[0 := rescale_rule50 (nw ! 0)]"
    using replace_step_0_new_weights [OF c assms(3), of s] st by simp
  show ?thesis
  proof (cases err)
    case None
    then show ?thesis
      using st ws nw' replace_loop_new_weights [of "Suc 0" ws' s' nw'] by simp
  next
    case (Some a)
    then show ?thesis using st ws nw' by simp
  qed
qed

lemma first_is_conv_net: "first_is_conv (net_weights c f b)"
  by (simp add: first_is_conv_def net_weights_first is_beta_def endswith_rev)

lemma net_weights_nonempty: "net_weights c f b \<noteq> []"
  by (simp add: net_weights_def conv_block_weights_def)

text \<open>
  \<^bold>\<open>C10.\<close> The export scales the entry at flat position \<open>i\<close> of line 0, and the import
  the entry at flat position \<open>i\<close> of \<^verbatim>\<open>new_weights[0]\<close>, exactly when
  \<open>(i mod (112 * 9)) div 9 = 109\<close>, whatever the shape of the first tensor is: the
  period 9 is not taken from the kernel. On the \<open>3 \<times> 3\<close> kernel with 112 input channels
  the rule selects the input channel: the entry \<open>[oi, ci, y, kx]\<close> of the exchange layout
  is selected if and only if \<open>ci = 109\<close>.
\<close>

theorem rule50_index_rule:
  "(save_lines 0 (w # ws) sess = Inr ls \<and> work_weights sess w = Inr t \<and> i < length t \<longrightarrow>
      ls ! 0 ! i =
        (if (i mod (112 * 9)) div 9 = 109 then fdiv (t ! i) (Finite 99) else t ! i)) \<and>
   (\<not> endswith (name w) ''/batch_normalization/beta:0'' \<and> length (shape w) = 4 \<and>
    new_weights \<noteq> [] \<and> i < length (new_weights ! 0) \<longrightarrow>
      snd (snd (replace_step 0 w s new_weights)) ! 0 ! i =
        (if (i mod (112 * 9)) div 9 = 109 then fmul (new_weights ! 0 ! i) (Finite 99)
         else new_weights ! 0 ! i)) \<and>
   ((ci::nat) < 112 \<and> y < 3 \<and> kx < 3 \<longrightarrow>
      (((((oi * 112 + ci) * 3 + y) * 3 + kx) mod (112 * 9)) div 9 = 109) = (ci = 109))"
proof (intro conjI impI)
  assume a: "save_lines 0 (w # ws) sess = Inr ls \<and> work_weights sess w = Inr t \<and> i < length t"
  then have "ls ! 0 = wt_str 0 t" by (auto split: sum.splits)
  then show "ls ! 0 ! i =
        (if (i mod (112 * 9)) div 9 = 109 then fdiv (t ! i) (Finite 99) else t ! i)"
    using a by (simp only: nth_wt_str_0)
next
  assume a: "\<not> endswith (name w) ''/batch_normalization/beta:0'' \<and> length (shape w) = 4 \<and>
    new_weights \<noteq> [] \<and> i < length (new_weights ! 0)"
  then have "snd (snd (replace_step 0 w s new_weights)) =
               new_weights[0 := rescale_rule50 (new_weights ! 0)]"
    by (intro replace_step_0_new_weights) (simp_all add: is_beta_def)
  then have "snd (snd (replace_step 0 w s new_weights)) ! 0 = rescale_rule50 (new_weights ! 0)"
    using a by simp
  then show "snd (snd (replace_step 0 w s new_weights)) ! 0 ! i =
        (if (i mod (112 * 9)) div 9 = 109 then fmul (new_weights ! 0 ! i) (Finite 99)
         else new_weights ! 0 ! i)"
    using a by (simp only: nth_rescale_rule50)
next
  assume "ci < 112 \<and> y < 3 \<and> kx < 3"
  then have "((((oi * 112 + ci) * 3 + y) * 3 + kx) mod (112 * 9)) div 9 = ci"
    by (intro channel_of_kernel_index) simp_all
  then show "(((((oi * 112 + ci) * 3 + y) * 3 + kx) mod (112 * 9)) div 9 = 109) = (ci = 109)"
    by (simp only:)
qed

theorem rule50_index_rule_witness:
  "wt_str 0 (tf_transpose (ramp 1008) [3, 3, 112, 1] [3, 2, 0, 1]) ! 981 = Finite (109 / 99) \<and>
   wt_str 0 (tf_transpose (ramp 1008) [3, 3, 112, 1] [3, 2, 0, 1]) ! 980 = Finite 1004 \<and>
   snd (snd (replace_step 0 \<lparr>name = ''bn0/conv_weight:0'', shape = [3, 3, 112, 1]\<rparr> Map.empty
     [ramp 1008])) ! 0 ! 981 = Finite (981 * 99) \<and>
   ((((((0::nat) * 112 + 109) * 3 + 0) * 3 + 0) mod (112 * 9)) div 9 = 109) = ((109::nat) = 109)"
proof -
  let ?k = "\<lparr>name = ''bn0/conv_weight:0'', shape = [3, 3, 112, 1]\<rparr>"
  let ?t = "tf_transpose (ramp 1008) [3, 3, 112, 1] [3, 2, 0, 1]"
  let ?s = "[''bn0/conv_weight:0'' \<mapsto> ramp 1008]"
  have nb: "\<not> endswith (name ?k) ''/batch_normalization/beta:0''"
    by (simp add: endswith_def)
  have ww: "work_weights ?s ?k = Inr ?t"
    using nb by (simp add: work_weights_def)
  then have sl: "save_lines 0 [?k] ?s = Inr [wt_str 0 ?t]"
    by simp
  have tl: "length ?t = 1008" by (simp add: transpose_shape_def)
  have t1: "?t ! 981 = Finite 109"
    using nth_export_conv [of 0 1 109 112 0 3 0 3 "ramp 1008"] by simp
  have t2: "?t ! 980 = Finite 1004"
    using nth_export_conv [of 0 1 108 112 2 3 2 3 "ramp 1008"] by simp
  have a: "wt_str 0 ?t ! 981 = Finite (109 / 99)"
    using rule50_index_rule [of ?k "[]" ?s "[wt_str 0 ?t]" ?t 981] sl ww tl t1
    by simp
  have b: "wt_str 0 ?t ! 980 = Finite 1004"
    using rule50_index_rule [of ?k "[]" ?s "[wt_str 0 ?t]" ?t 980] sl ww tl t2
    by simp
  have c: "snd (snd (replace_step 0 ?k Map.empty [ramp 1008])) ! 0 ! 981 = Finite (981 * 99)"
    using rule50_index_rule [of ?k _ _ _ _ 981 "[ramp 1008]" Map.empty] nb by simp
  have d: "((((((0::nat) * 112 + 109) * 3 + 0) * 3 + 0) mod (112 * 9)) div 9 = 109) = ((109::nat) = 109)"
    using rule50_index_rule [of _ _ _ _ _ _ _ _ 109 0 0 0] by simp
  show ?thesis using a b c d by (intro conjI)
qed

section \<open>In-place rescaling of the imported list\<close>

text \<open>
  \<^bold>\<open>C9.\<close> On a network built by \<open>construct_net\<close>, \<open>replace_weights\<close> changes the
  caller's \<open>new_weights\<close>: whenever the list is not empty, and whether or not the import
  then completes, the entries of \<open>new_weights[0]\<close> selected by the rule-50 test have been
  multiplied by 99 and nothing else has changed. A second import of the same list
  multiplies those entries by 99 once more.
\<close>

theorem replace_weights_rescales_argument:
  assumes "init_net (TFProcess F B) = Inr p" and "new_weights \<noteq> []"
  shows "snd (snd (replace_weights p s new_weights)) =
           new_weights[0 := rescale_rule50 (new_weights ! 0)] \<and>
         length (snd (snd (replace_weights p s new_weights)) ! 0) = length (new_weights ! 0) \<and>
         (\<forall>i<length (new_weights ! 0).
            snd (snd (replace_weights p s new_weights)) ! 0 ! i =
              (if (i mod (112 * 9)) div 9 = 109 then fmul (new_weights ! 0 ! i) (Finite 99)
               else new_weights ! 0 ! i)) \<and>
         (\<forall>e. 0 < e \<longrightarrow> snd (snd (replace_weights p s new_weights)) ! e = new_weights ! e) \<and>
         (\<forall>i<length (new_weights ! 0).
            snd (snd (replace_weights p s' (snd (snd (replace_weights p s new_weights))))) ! 0 ! i =
              (if (i mod (112 * 9)) div 9 = 109
               then fmul (fmul (new_weights ! 0 ! i) (Finite 99)) (Finite 99)
               else new_weights ! 0 ! i))"
proof -
  have ws: "weights p = net_weights 0 (nat F) (nat B)"
    using init_net_weights [OF assms(1)] by simp
  have c: "first_is_conv (weights p)" "weights p \<noteq> []"
    by (simp_all add: ws first_is_conv_net net_weights_nonempty)
  have r: "snd (snd (replace_weights p s0 nw)) = nw[0 := rescale_rule50 (nw ! 0)]"
    if "nw \<noteq> []" for s0 nw
    unfolding replace_weights_def using c that by (rule replace_loop_0_new_weights)
  let ?nw1 = "new_weights[0 := rescale_rule50 (new_weights ! 0)]"
  have r1: "snd (snd (replace_weights p s new_weights)) = ?nw1"
    using assms(2) by (rule r)
  have ne1: "?nw1 \<noteq> []" using assms(2) by simp
  have r2: "snd (snd (replace_weights p s' ?nw1)) = ?nw1[0 := rescale_rule50 (?nw1 ! 0)]"
    using ne1 by (rule r)
  have n0: "?nw1 ! 0 = rescale_rule50 (new_weights ! 0)" using assms(2) by simp
  show ?thesis
  proof (intro conjI allI impI)
    show "snd (snd (replace_weights p s new_weights)) = ?nw1" by (rule r1)
    show "length (snd (snd (replace_weights p s new_weights)) ! 0) = length (new_weights ! 0)"
      by (simp add: r1 n0)
    show "snd (snd (replace_weights p s new_weights)) ! e = new_weights ! e" if "0 < e" for e
      using that by (simp add: r1)
  next
    fix i
    assume i: "i < length (new_weights ! 0)"
    show "snd (snd (replace_weights p s new_weights)) ! 0 ! i =
              (if (i mod (112 * 9)) div 9 = 109 then fmul (new_weights ! 0 ! i) (Finite 99)
               else new_weights ! 0 ! i)"
      using i by (simp only: r1 n0 nth_rescale_rule50)
    have "snd (snd (replace_weights p s' (snd (snd (replace_weights p s new_weights))))) ! 0 =
            rescale_rule50 (rescale_rule50 (new_weights ! 0))"
      using assms(2) by (simp add: r1 r2)
    then show "snd (snd (replace_weights p s' (snd (snd (replace_weights p s new_weights))))) ! 0 ! i =
              (if (i mod (112 * 9)) div 9 = 109
               then fmul (fmul (new_weights ! 0 ! i) (Finite 99)) (Finite 99)
               else new_weights ! 0 ! i)"
      using i by (simp add: nth_rescale_rule50)
  qed
qed

theorem replace_weights_rescales_argument_witness:
  "(\<exists>p. init_net (TFProcess 1 0) = Inr p \<and>
        snd (snd (replace_weights p Map.empty [ramp 1008, [Finite 1]])) ! 0 ! 981 = Finite (981 * 99) \<and>
        snd (snd (replace_weights p Map.empty [ramp 1008, [Finite 1]])) ! 0 ! 980 = Finite 980 \<and>
        snd (snd (replace_weights p Map.empty [ramp 1008, [Finite 1]])) ! 1 = [Finite 1] \<and>
        snd (snd (replace_weights p Map.empty
          (snd (snd (replace_weights p Map.empty [ramp 1008, [Finite 1]]))))) ! 0 ! 981 =
          Finite (981 * 99 * 99))"
proof -
  obtain p where p: "init_net (TFProcess 1 0) = Inr p" by (simp add: init_net_eq)
  have ne: "[ramp 1008, [Finite 1]] \<noteq> []" by simp
  note t = replace_weights_rescales_argument [OF p ne, of Map.empty Map.empty]
  from t have a: "\<forall>i<length ([ramp 1008, [Finite 1]] ! 0).
            snd (snd (replace_weights p Map.empty [ramp 1008, [Finite 1]])) ! 0 ! i =
              (if (i mod (112 * 9)) div 9 = 109 then fmul ([ramp 1008, [Finite 1]] ! 0 ! i) (Finite 99)
               else [ramp 1008, [Finite 1]] ! 0 ! i)" by blast
  from t have b: "\<forall>e. 0 < e \<longrightarrow>
      snd (snd (replace_weights p Map.empty [ramp 1008, [Finite 1]])) ! e = [ramp 1008, [Finite 1]] ! e"
    by blast
  from t have c: "\<forall>i<length ([ramp 1008, [Finite 1]] ! 0).
            snd (snd (replace_weights p Map.empty
               (snd (snd (replace_weights p Map.empty [ramp 1008, [Finite 1]]))))) ! 0 ! i =
              (if (i mod (112 * 9)) div 9 = 109
               then fmul (fmul ([ramp 1008, [Finite 1]] ! 0 ! i) (Finite 99)) (Finite 99)
               else [ramp 1008, [Finite 1]] ! 0 ! i)" by blast
  have "snd (snd (replace_weights p Map.empty [ramp 1008, [Finite 1]])) ! 0 ! 981 = Finite (981 * 99)"
    using a [rule_format, of 981] by simp
  moreover have "snd (snd (replace_weights p Map.empty [ramp 1008, [Finite 1]])) ! 0 ! 980 = Finite 980"
    using a [rule_format, of 980] by simp
  moreover have "snd (snd (replace_weights p Map.empty [ramp 1008, [Finite 1]])) ! 1 = [Finite 1]"
    using b [rule_format, of 1] by simp
  moreover have "snd (snd (replace_weights p Map.empty
          (snd (snd (replace_weights p Map.empty [ramp 1008, [Finite 1]]))))) ! 0 ! 981 =
          Finite (981 * 99 * 99)"
    using c [rule_format, of 981] by simp
  ultimately show ?thesis using p by blast
qed

section \<open>The bias line of a normalization layer\<close>

lemma str_small: "str 0 = ''0''" "str 1 = ''1''" "str 2 = ''2''"
  by code_simp+

lemma export_bn_layer:
  assumes L: "bn_layers ws" and S: "save_lines 0 ws sess = Inr ls"
    and e: "e < length ws" and b: "is_beta (ws ! e)"
  shows "\<exists>beta mean var.
           sess (name (ws ! e)) = Some beta \<and>
           sess (name (ws ! (e + 1))) = Some mean \<and>
           sess (name (ws ! (e + 2))) = Some var \<and>
           ls ! e = fold_bias beta var \<and> ls ! (e + 1) = mean \<and> ls ! (e + 2) = var"
proof -
  have la: "bn_layer_at ws e" using L e b by (simp add: bn_layers_def)
  then have pos: "0 < e" and e2: "e + 2 < length ws"
    and n2: "name (ws ! (e + 2)) = replace (name (ws ! e)) ''beta'' ''moving_variance''"
    and s1: "shape (ws ! (e + 1)) = shape (ws ! e)" and s2: "shape (ws ! (e + 2)) = shape (ws ! e)"
    and d1: "length (shape (ws ! e)) = 1"
    and b1: "\<not> is_beta (ws ! (e + 1))" and b2: "\<not> is_beta (ws ! (e + 2))"
    by (simp_all add: bn_layer_at_def)
  have line: "\<exists>l. work_weights sess (ws ! i) = Inr l \<and> ls ! i = l" if "0 < i" "i < length ws" for i
    using save_lines_nth [OF S] that by (auto simp: wt_str_pos)
  obtain l0 where l0: "work_weights sess (ws ! e) = Inr l0" "ls ! e = l0"
    using line [of e] pos e by auto
  obtain l1 where l1: "work_weights sess (ws ! (e + 1)) = Inr l1" "ls ! (e + 1) = l1"
    using line [of "e + 1"] e2 by auto
  obtain l2 where l2: "work_weights sess (ws ! (e + 2)) = Inr l2" "ls ! (e + 2) = l2"
    using line [of "e + 2"] e2 by auto
  from l0(1) b obtain beta var where bv: "sess (name (ws ! e)) = Some beta"
    "sess (replace (name (ws ! e)) ''beta'' ''moving_variance'') = Some var"
    "l0 = fold_bias beta var"
    by (auto simp: work_weights_def is_beta_def fold_bias_def split: option.splits)
  from l1(1) b1 s1 d1 have m: "sess (name (ws ! (e + 1))) = Some l1"
    by (auto simp: work_weights_def is_beta_def split: option.splits)
  from l2(1) b2 s2 d1 have v: "sess (name (ws ! (e + 2))) = Some l2"
    by (auto simp: work_weights_def is_beta_def split: option.splits)
  have "l2 = var" using v bv(2) n2 by simp
  then show ?thesis using bv m v l0 l1 l2 by simp
qed

lemma fold_real:
  "0 \<le> v + 1 / 100000 \<Longrightarrow>
   fmul (Finite b) (fsqrt (fadd (Finite v) (Finite (1 / 100000)))) =
     Finite (b * sqrt (v + 1 / 100000))"
  by simp

text \<open>
  \<^bold>\<open>C3.\<close> In a network built by \<open>construct_net\<close>, take any slot \<open>e\<close> that holds the shift
  (beta) of a normalization layer. The next two slots hold the running mean and the
  running variance of the same layer. The line exported for the shift is, element by
  element, \<open>shift \<times> sqrt (variance + 1e-5)\<close>, computed from the shift and the running
  variance only; the running mean and the running variance are written unchanged on
  the two lines that follow. For finite numbers with \<open>variance + 1e-5 \<ge> 0\<close> the
  elementwise operation is the product of real numbers \<open>b * sqrt (v + 1e-5)\<close>.
\<close>

theorem export_bias_fold:
  assumes "init_net (TFProcess F B) = Inr p"
    and "save_leelaz_weights p sess = Inr f"
    and "e < length (weights p)"
    and "endswith (name (weights p ! e)) ''/batch_normalization/beta:0''"
  shows "(\<exists>beta mean var.
           sess (name (weights p ! e)) = Some beta \<and>
           name (weights p ! (e + 1)) = replace (name (weights p ! e)) ''beta'' ''moving_mean'' \<and>
           sess (name (weights p ! (e + 1))) = Some mean \<and>
           name (weights p ! (e + 2)) = replace (name (weights p ! e)) ''beta'' ''moving_variance'' \<and>
           sess (name (weights p ! (e + 2))) = Some var \<and>
           lines f ! e =
             map2 (\<lambda>b v. fmul b (fsqrt (fadd v (Finite (1 / 100000))))) beta var \<and>
           lines f ! (e + 1) = mean \<and>
           lines f ! (e + 2) = var) \<and>
         (\<forall>b v. 0 \<le> v + 1 / 100000 \<longrightarrow>
            fmul (Finite b) (fsqrt (fadd (Finite v) (Finite (1 / 100000)))) =
              Finite (b * sqrt (v + 1 / 100000)))"
proof -
  have ws: "weights p = net_weights 0 (nat F) (nat B)"
    using init_net_weights [OF assms(1)] by simp
  have L: "bn_layers (weights p)" by (simp add: ws bn_layers_net)
  have S: "save_lines 0 (weights p) sess = Inr (lines f)"
    using save_leelaz_weights_lines [OF assms(2)] by simp
  have b: "is_beta (weights p ! e)" using assms(4) by (simp add: is_beta_def)
  have la: "bn_layer_at (weights p) e" using L assms(3) b by (simp add: bn_layers_def)
  from export_bn_layer [OF L S assms(3) b] la show ?thesis
    by (auto simp: bn_layer_at_def fold_bias_def)
qed

theorem export_bias_fold_witness:
  "\<exists>p f. init_net (TFProcess 1 0) = Inr p \<and>
         save_leelaz_weights p (uniform_session (weights p) (Finite 3)) = Inr f \<and>
         name (weights p ! 1) = ''bn0/batch_normalization/beta:0'' \<and>
         name (weights p ! 2) = ''bn0/batch_normalization/moving_mean:0'' \<and>
         name (weights p ! 3) = ''bn0/batch_normalization/moving_variance:0'' \<and>
         lines f ! 1 = [Finite (3 * sqrt (3 + 1 / 100000))] \<and>
         lines f ! 2 = [Finite 3] \<and> lines f ! 3 = [Finite 3]"
proof -
  obtain p where p: "init_net (TFProcess 1 0) = Inr p" by (simp add: init_net_eq)
  then have ws: "weights p = net_weights 0 1 0"
    using init_net_weights [OF p] by simp
  let ?s = "uniform_session (weights p) (Finite 3)"
  have d: "distinct (map name (weights p))" by (simp add: ws distinct_net)
  have "well_shaped (weights p) ?s" using d by (rule well_shaped_uniform)
  moreover have "bn_layers (weights p)" by (simp add: ws bn_layers_net)
  ultimately obtain ls where "save_leelaz_weights p ?s = Inr \<lparr>version = 2, lines = ls\<rparr>"
    using save_leelaz_weights_ok by blast
  then obtain f where f: "save_leelaz_weights p ?s = Inr f" by blast
  have w1: "weights p ! 1 = \<lparr>name = ''bn0/batch_normalization/beta:0'', shape = [1]\<rparr>"
    and w2: "weights p ! 2 = \<lparr>name = ''bn0/batch_normalization/moving_mean:0'', shape = [1]\<rparr>"
    and w3: "weights p ! 3 = \<lparr>name = ''bn0/batch_normalization/moving_variance:0'', shape = [1]\<rparr>"
    by (simp_all add: ws net_weights_def conv_block_weights_def str_small)
  have len: "1 < length (weights p)" "2 < length (weights p)" "3 < length (weights p)"
    by (simp_all add: ws length_net_weights)
  have in1: "weights p ! 1 \<in> set (weights p)" and in2: "weights p ! 2 \<in> set (weights p)"
    and in3: "weights p ! 3 \<in> set (weights p)"
    using len by (simp_all only: nth_mem)
  have s1: "?s ''bn0/batch_normalization/beta:0'' = Some [Finite 3]"
    using uniform_session_at [OF d in1, of "Finite 3"] unfolding w1 by simp
  have s2: "?s ''bn0/batch_normalization/moving_mean:0'' = Some [Finite 3]"
    using uniform_session_at [OF d in2, of "Finite 3"] unfolding w2 by simp
  have s3: "?s ''bn0/batch_normalization/moving_variance:0'' = Some [Finite 3]"
    using uniform_session_at [OF d in3, of "Finite 3"] unfolding w3 by simp
  have b: "endswith (name (weights p ! 1)) ''/batch_normalization/beta:0''"
    unfolding w1 by (simp add: endswith_def)
  have "(1::nat) + 1 = 2" "(1::nat) + 2 = 3" by simp_all
  then have w1': "weights p ! (1 + 1) = weights p ! 2" "weights p ! (1 + 2) = weights p ! 3"
    by (simp_all only:)
  from export_bias_fold [OF p f len(1) b]
  have "lines f ! 1 = [Finite (3 * sqrt (3 + 1 / 100000))] \<and>
        lines f ! (1 + 1) = [Finite 3] \<and> lines f ! (1 + 2) = [Finite 3]"
    unfolding w1' w1 w2 w3 by (simp add: s1 s2 s3)
  moreover have "(1::nat) + 1 = 2" "(1::nat) + 2 = 3" by simp_all
  ultimately have "lines f ! 1 = [Finite (3 * sqrt (3 + 1 / 100000))] \<and>
        lines f ! 2 = [Finite 3] \<and> lines f ! 3 = [Finite 3]"
    by (simp only:)
  then show ?thesis using p f w1 w2 w3 by auto
qed

section \<open>Export followed by import\<close>








end
